theory Spec2Isabelle
  imports Main "HOL-Library.Word" "HOL-Library.List_Lexorder"
begin

unbundle bit_operations_syntax

section \<open>MAC addresses\<close>

text \<open>
  Modelled from the spec: mac_addr.h is not among the sources. A MAC address is
  a six-octet identifier with a distinguished unknown value (all-zero) and a
  broadcast predicate (all-ones). The octets are kept in wire order;
  \<open>std::map\<close> needs a linear order on its keys, here the lexicographic one.
\<close>

type_synonym Mac_addr = "8 word list"

definition Addr_unknown :: Mac_addr where
  "Addr_unknown = replicate 6 0"

definition is_broadcast :: "Mac_addr \<Rightarrow> bool" where
  "is_broadcast m = (m = replicate 6 0xff)"

section \<open>Virtqueues and descriptor chains\<close>

text \<open>
  \<open>L4virtio::Svr::Virtqueue\<close> and \<open>L4virtio::Svr::Request_processor\<close> belong to
  the l4virtio library, not to this repository. The model keeps what the switch
  uses of them. A descriptor either loads as a buffer of bytes or makes
  \<open>load_desc\<close> raise \<open>Bad_descriptor\<close>. A chain is its head descriptor and
  the descriptors linked after it. A queue is the sequence of chains the client
  has made available, the position of the next one to hand out
  (\<open>_current_avail\<close>), and the calls of \<open>finish\<close> made so far, each with the
  (head, length) pairs it returned to the client. A \<open>Head_desc\<close> is the position
  of its chain in the available sequence; \<open>None\<close> is the invalid head.
\<close>

datatype desc = Buf "8 word list" | Bad_desc

type_synonym chain = "desc \<times> desc list"

record Virtqueue =
  vq_ready :: bool
  vq_avail :: "chain list"
  vq_current_avail :: nat
  vq_finished :: "(nat \<times> 32 word) list list"

definition Virtqueue_init :: Virtqueue where
  "Virtqueue_init =
     \<lparr> vq_ready = False, vq_avail = [], vq_current_avail = 0, vq_finished = [] \<rparr>"

definition ready :: "Virtqueue \<Rightarrow> bool" where
  "ready q = vq_ready q"

definition desc_avail :: "Virtqueue \<Rightarrow> bool" where
  "desc_avail q = (vq_current_avail q < length (vq_avail q))"

definition next_avail :: "Virtqueue \<Rightarrow> nat option \<times> Virtqueue" where
  "next_avail q =
     (if desc_avail q
      then (Some (vq_current_avail q), q\<lparr> vq_current_avail := vq_current_avail q + 1 \<rparr>)
      else (None, q))"

text \<open>
  \<open>rewind_avail\<close> puts the chains from the given head on back on the
  available ring: the position is the one of that head again.
\<close>

definition rewind_avail :: "nat \<Rightarrow> Virtqueue \<Rightarrow> Virtqueue" where
  "rewind_avail h q = q\<lparr> vq_current_avail := h \<rparr>"

definition finish :: "nat \<Rightarrow> 32 word \<Rightarrow> Virtqueue \<Rightarrow> Virtqueue" where
  "finish h len q = q\<lparr> vq_finished := vq_finished q @ [[(h, len)]] \<rparr>"

definition finish_range :: "(nat \<times> 32 word) list \<Rightarrow> Virtqueue \<Rightarrow> Virtqueue" where
  "finish_range es q = q\<lparr> vq_finished := vq_finished q @ [es] \<rparr>"

text \<open>The exceptions the switch code lets propagate.\<close>

datatype exn = Bad_descriptor | Runtime_error

section \<open>VLAN configuration of a port (server/switch/port.h)\<close>

text \<open>
  The header vlan.h is not among the sources. The two pseudo VLAN ids it
  declares, \<open>VLAN_ID_NATIVE\<close> and \<open>VLAN_ID_TRUNK\<close>, are therefore parameters of
  the model; every function that mentions one of them takes the record below.
\<close>

record vlan_consts =
  VLAN_ID_NATIVE :: "16 word"
  VLAN_ID_TRUNK :: "16 word"

text \<open>
  Modelled from the spec: \<open>vlan_valid_id\<close> lives in the missing vlan.h. The
  spec gives the valid user-configurable ids as 1..4094, and the comment of
  \<open>set_vlan_access\<close> in port.h says \<open>0 < id < 0xfff\<close>.
\<close>

definition vlan_valid_id :: "16 word \<Rightarrow> bool" where
  "vlan_valid_id vid = (0 < vid \<and> vid < 0xfff)"

text \<open>
  Class \<open>Virtio_port\<close>: its VLAN members, its MAC address, and what it
  inherits from \<open>Virtio_net\<close> (virtio_net.h is not among the sources): the
  transmit and the receive queue and the device-error flag set by
  \<open>device_error()\<close>.
\<close>

record Virtio_port =
  vlan_id :: "16 word"
  vlan_bloom_filter :: "32 word"
  vlan_ids :: "16 word set"
  port_mac :: Mac_addr
  tx_q :: Virtqueue
  rx_q :: Virtqueue
  dev_error :: bool

definition vlan_bloom_hash :: "16 word \<Rightarrow> 32 word" where
  "vlan_bloom_hash vid = push_bit (unat (vid AND 31)) 1"

definition get_vlan :: "Virtio_port \<Rightarrow> 16 word" where
  "get_vlan p = vlan_id p"

definition is_trunk :: "vlan_consts \<Rightarrow> Virtio_port \<Rightarrow> bool" where
  "is_trunk K p = (vlan_id p = VLAN_ID_TRUNK K)"

definition is_native :: "vlan_consts \<Rightarrow> Virtio_port \<Rightarrow> bool" where
  "is_native K p = (vlan_id p = VLAN_ID_NATIVE K)"

definition is_access :: "vlan_consts \<Rightarrow> Virtio_port \<Rightarrow> bool" where
  "is_access K p = (\<not> is_trunk K p \<and> \<not> is_native K p)"

text \<open>
  A freshly constructed port: the default member initialisers, the MAC address
  given to the constructor (\<open>Addr_unknown\<close> for a null pointer), queues that the
  client has not set up yet.
\<close>

definition new_port :: "vlan_consts \<Rightarrow> Mac_addr \<Rightarrow> Virtio_port" where
  "new_port K m =
     \<lparr> vlan_id = VLAN_ID_NATIVE K, vlan_bloom_filter = 0, vlan_ids = {},
       port_mac = m, tx_q = Virtqueue_init, rx_q = Virtqueue_init, dev_error = False \<rparr>"

text \<open>The setters; a failing \<open>assert\<close> is the value \<open>None\<close>.\<close>

definition set_vlan_access :: "16 word \<Rightarrow> Virtio_port \<Rightarrow> Virtio_port option" where
  "set_vlan_access vid p =
     (if \<not> vlan_valid_id vid then None
      else Some (p\<lparr> vlan_id := vid, vlan_bloom_filter := 0, vlan_ids := {} \<rparr>))"

fun set_vlan_trunk_loop ::
  "16 word list \<Rightarrow> 32 word \<times> 16 word set \<Rightarrow> (32 word \<times> 16 word set) option" where
  "set_vlan_trunk_loop [] acc = Some acc"
| "set_vlan_trunk_loop (vid # ids) (filter_acc, ids_acc) =
     (if \<not> vlan_valid_id vid then None
      else set_vlan_trunk_loop ids (filter_acc OR vlan_bloom_hash vid, insert vid ids_acc))"

definition set_vlan_trunk ::
  "vlan_consts \<Rightarrow> 16 word list \<Rightarrow> Virtio_port \<Rightarrow> Virtio_port option" where
  "set_vlan_trunk K ids p =
     (case set_vlan_trunk_loop ids (0, {}) of
        None \<Rightarrow> None
      | Some (filter_acc, ids_acc) \<Rightarrow>
          Some (p\<lparr> vlan_ids := ids_acc, vlan_id := VLAN_ID_TRUNK K,
                   vlan_bloom_filter := filter_acc \<rparr>))"

definition set_monitor :: "vlan_consts \<Rightarrow> Virtio_port \<Rightarrow> Virtio_port" where
  "set_monitor K p = p\<lparr> vlan_id := VLAN_ID_TRUNK K, vlan_bloom_filter := 0 \<rparr>"

definition match_vlan :: "Virtio_port \<Rightarrow> 16 word \<Rightarrow> bool" where
  "match_vlan p vid =
     (if vid = vlan_id p then True
      else if vlan_bloom_filter p AND vlan_bloom_hash vid = 0 then False
      else vid \<in> vlan_ids p)"


section \<open>The MAC table (mac_table.h)\<close>

text \<open>
  \<open>struct Entry\<close>: a port pointer (\<open>None\<close> is \<open>nullptr\<close>) and the key that
  points to the entry. \<open>'p\<close> is the type of references to port objects.
\<close>

record 'p Entry =
  entry_port :: "'p option"
  entry_addr :: Mac_addr

text \<open>
  \<open>class Mac_table\<close>. The index \<open>_mac_table\<close> is a \<open>std::map\<close> from addresses to
  pointers into \<open>_entries\<close>: an association list sorted by key whose values are
  positions in \<open>_entries\<close>. The template parameter \<open>Size\<close> is an argument of the
  operations that use it.
\<close>

record 'p Mac_table =
  mac_table :: "(Mac_addr \<times> nat) list"
  entries :: "'p Entry list"
  rr_index :: nat

definition Mac_table_init :: "nat \<Rightarrow> 'p Mac_table" where
  "Mac_table_init Size =
     \<lparr> mac_table = [],
       entries = replicate Size \<lparr> entry_port = None, entry_addr = Addr_unknown \<rparr>,
       rr_index = 0 \<rparr>"

definition lookup :: "'p Mac_table \<Rightarrow> Mac_addr \<Rightarrow> 'p option" where
  "lookup t dst =
     (case map_of (mac_table t) dst of
        None \<Rightarrow> None
      | Some i \<Rightarrow> entry_port (entries t ! i))"

text \<open>
  \<open>std::map::emplace\<close> and \<open>std::map::erase\<close> by key. \<open>emplace\<close> returns the
  new map, the value its iterator points to (the existing one when the key is
  present) and whether it inserted.
\<close>

definition emplace ::
  "Mac_addr \<Rightarrow> nat \<Rightarrow> (Mac_addr \<times> nat) list \<Rightarrow> ((Mac_addr \<times> nat) list \<times> nat) \<times> bool" where
  "emplace k v xs =
     (case map_of xs k of
        None \<Rightarrow> ((insort_key fst (k, v) xs, v), True)
      | Some v' \<Rightarrow> ((xs, v'), False))"

definition erase :: "Mac_addr \<Rightarrow> (Mac_addr \<times> nat) list \<Rightarrow> (Mac_addr \<times> nat) list" where
  "erase k xs = filter (\<lambda>e. fst e \<noteq> k) xs"

text \<open>
  \<open>learn\<close>. The port argument is a pointer to a port object, never null (the
  debug branch dereferences it); that branch only prints and is left out.
\<close>

definition learn :: "nat \<Rightarrow> Mac_addr \<Rightarrow> 'p \<Rightarrow> 'p Mac_table \<Rightarrow> 'p Mac_table" where
  "learn Size src p t =
     (let status = emplace src (rr_index t) (mac_table t) in
      if snd status then
        (let old = entries t ! rr_index t;
             tbl = (if entry_port old \<noteq> None then erase (entry_addr old) (fst (fst status))
                    else fst (fst status))
         in t\<lparr> mac_table := tbl,
                entries := (entries t)[rr_index t := \<lparr> entry_port = Some p, entry_addr = src \<rparr>],
                rr_index := (rr_index t + 1) mod Size \<rparr>)
      else
        (let i = snd (fst status)
         in t\<lparr> entries := (entries t)[i := (entries t ! i)\<lparr> entry_port := Some p \<rparr>] \<rparr>))"

text \<open>
  \<open>flush\<close>: one pass over the index in key order; an entry whose slot holds the
  port is cleared and its key erased.
\<close>

fun flush_loop ::
  "'p \<Rightarrow> (Mac_addr \<times> nat) list \<Rightarrow> 'p Entry list \<Rightarrow> (Mac_addr \<times> nat) list \<times> 'p Entry list" where
  "flush_loop p [] es = ([], es)"
| "flush_loop p (ki # rest) es =
     (if entry_port (es ! snd ki) = Some p
      then flush_loop p rest (es[snd ki := \<lparr> entry_port = None, entry_addr = Addr_unknown \<rparr>])
      else (let r = flush_loop p rest es in (ki # fst r, snd r)))"

definition flush :: "'p \<Rightarrow> 'p Mac_table \<Rightarrow> 'p Mac_table" where
  "flush p t =
     (let r = flush_loop p (mac_table t) (entries t)
      in t\<lparr> mac_table := fst r, entries := snd r \<rparr>)"

text \<open>Learning a sequence of (address, port) pairs, first to last.\<close>

definition learn_all :: "nat \<Rightarrow> (Mac_addr \<times> 'p) list \<Rightarrow> 'p Mac_table \<Rightarrow> 'p Mac_table" where
  "learn_all Size xs t = foldl (\<lambda>t' mp. learn Size (fst mp) (snd mp) t') t xs"

text \<open>
  \<open>learn\<close> in the words of the specification: if the address is present,
  update its port pointer and return; else if the slot at the cursor is
  occupied, remove its current address from the index; write the pair into the
  slot, insert it into the index, and advance the cursor modulo \<open>Size\<close>.
\<close>

definition learn_spec :: "nat \<Rightarrow> Mac_addr \<Rightarrow> 'p \<Rightarrow> 'p Mac_table \<Rightarrow> 'p Mac_table" where
  "learn_spec Size mac p t =
     (case map_of (mac_table t) mac of
        Some i \<Rightarrow> t\<lparr> entries := (entries t)[i := (entries t ! i)\<lparr> entry_port := Some p \<rparr>] \<rparr>
      | None \<Rightarrow>
          (let c = rr_index t;
               old = entries t ! c;
               removed = (if entry_port old \<noteq> None
                          then filter (\<lambda>e. fst e \<noteq> entry_addr old) (mac_table t)
                          else mac_table t);
               written = (entries t)[c := \<lparr> entry_port = Some p, entry_addr = mac \<rparr>];
               inserted = insort_key fst (mac, c) removed
           in \<lparr> mac_table = inserted, entries = written, rr_index = (c + 1) mod Size \<rparr>))"

text \<open>
  The representation invariant of the table: the index is a sorted map without
  duplicate keys, every key points to an occupied slot that records this key,
  and every occupied slot is pointed to by its own key.
\<close>

definition mt_inv :: "nat \<Rightarrow> 'p Mac_table \<Rightarrow> bool" where
  "mt_inv Size t =
     (0 < Size \<and> length (entries t) = Size \<and> rr_index t < Size \<and>
      sorted (map fst (mac_table t)) \<and> distinct (map fst (mac_table t)) \<and>
      (\<forall>ki \<in> set (mac_table t).
          snd ki < Size \<and> entry_addr (entries t ! snd ki) = fst ki \<and>
          entry_port (entries t ! snd ki) \<noteq> None) \<and>
      (\<forall>i < Size. entry_port (entries t ! i) \<noteq> None \<longrightarrow>
          (entry_addr (entries t ! i), i) \<in> set (mac_table t)))"

section \<open>Choice of the VLAN mangle (Virtio_port::handle_request, port.h)\<close>

text \<open>
  \<open>class Virtio_vlan_mangle\<close> is declared in the missing vlan.h. port.h builds
  its values in three ways: the default constructor (no rewriting),
  \<open>Virtio_vlan_mangle::add(vid)\<close> and \<open>Virtio_vlan_mangle::remove()\<close>.
\<close>

datatype Virtio_vlan_mangle = Mangle_none | Mangle_add "16 word" | Mangle_remove

text \<open>
  The first half of \<open>handle_request\<close>: \<open>dst\<close> is the port the method is called
  on (\<open>this\<close>), \<open>src_port\<close> the port the request came from.
\<close>

definition handle_request_mangle ::
  "vlan_consts \<Rightarrow> Virtio_port \<Rightarrow> Virtio_port \<Rightarrow> Virtio_vlan_mangle" where
  "handle_request_mangle K dst src_port =
     (if is_trunk K dst then
        (if \<not> is_trunk K src_port \<and> \<not> is_native K src_port
         then Mangle_add (vlan_id src_port) else Mangle_none)
      else
        (if is_trunk K src_port then Mangle_remove else Mangle_none))"

section \<open>Requests (request.h)\<close>

text \<open>
  Modelled from the spec: \<open>sizeof(Virtio_net::Hdr)\<close>. The virtio-net header is
  flags (u8), gso_type (u8), hdr_len, gso_size, csum_start, csum_offset and
  num_buffers (u16 each): twelve bytes.
\<close>

definition Hdr_size :: nat where
  "Hdr_size = 12"

text \<open>
  \<open>class Virtio_net_request\<close>: the head of its chain, the state of its request
  processor (the descriptors of the chain not loaded yet), the header
  (\<open>None\<close> is the null pointer of an invalid request) and the buffer \<open>_pkt\<close>,
  kept as the bytes from its cursor to its end.
\<close>

record Virtio_net_request =
  req_head :: nat
  req_proc :: "desc list"
  req_header :: "8 word list option"
  req_pkt :: "8 word list"

text \<open>
  The constructor: \<open>start\<close> loads the head descriptor, the header is skipped,
  and when it fills the first buffer the next one is loaded. Both loads can
  raise \<open>Bad_descriptor\<close>.
\<close>

definition Virtio_net_request_ctor :: "nat \<Rightarrow> chain \<Rightarrow> exn + Virtio_net_request" where
  "Virtio_net_request_ctor h c =
     (case fst c of
        Bad_desc \<Rightarrow> Inl Bad_descriptor
      | Buf bs \<Rightarrow>
          (let skipped = min (length bs) Hdr_size;
               pkt = drop Hdr_size bs
           in if skipped \<noteq> Hdr_size
              then Inr \<lparr> req_head = h, req_proc = snd c, req_header = None, req_pkt = pkt \<rparr>
              else if pkt = [] then
                (case snd c of
                   [] \<Rightarrow> Inr \<lparr> req_head = h, req_proc = [], req_header = None, req_pkt = pkt \<rparr>
                 | Bad_desc # ds \<Rightarrow> Inl Bad_descriptor
                 | Buf bs' # ds \<Rightarrow>
                     Inr \<lparr> req_head = h, req_proc = ds,
                           req_header = Some (take Hdr_size bs), req_pkt = bs' \<rparr>)
              else Inr \<lparr> req_head = h, req_proc = snd c,
                         req_header = Some (take Hdr_size bs), req_pkt = pkt \<rparr>))"

definition valid :: "Virtio_net_request \<Rightarrow> bool" where
  "valid r = (req_header r \<noteq> None)"

text \<open>
  The private \<open>finish\<close>, run by the destructor: the head goes back to the
  source queue with zero bytes written.
\<close>

definition request_finish :: "Virtio_net_request \<Rightarrow> Virtqueue \<Rightarrow> Virtqueue" where
  "request_finish r q = finish (req_head r) 0 q"

definition dst_mac :: "Virtio_net_request \<Rightarrow> Mac_addr" where
  "dst_mac r = (if length (req_pkt r) \<ge> 6 then take 6 (req_pkt r) else Addr_unknown)"

definition src_mac :: "Virtio_net_request \<Rightarrow> Mac_addr" where
  "src_mac r =
     (if length (req_pkt r) \<ge> 6 * 2 then take 6 (drop 6 (req_pkt r)) else Addr_unknown)"

definition has_vlan :: "Virtio_net_request \<Rightarrow> bool" where
  "has_vlan r =
     (if length (req_pkt r) < 14 then False
      else req_pkt r ! 12 = 0x81 \<and> req_pkt r ! 13 = 0x00)"

definition request_vlan_id :: "vlan_consts \<Rightarrow> Virtio_net_request \<Rightarrow> 16 word" where
  "request_vlan_id K r =
     (if \<not> has_vlan r \<or> length (req_pkt r) < 16 then VLAN_ID_NATIVE K
      else (push_bit 8 (ucast (req_pkt r ! 14)) OR ucast (req_pkt r ! 15)) AND 0xfff)"

text \<open>
  \<open>get_request\<close>: the result is the exception raised, or the request (\<open>None\<close>
  for the null pointer), and the queue afterwards. A request that is
  constructed and not returned is destroyed, which finishes its head.
\<close>

definition get_request ::
  "Virtqueue \<Rightarrow> (exn + Virtio_net_request option) \<times> Virtqueue" where
  "get_request queue =
     (if \<not> ready queue then (Inr None, queue)
      else
        (case next_avail queue of
           (None, q) \<Rightarrow> (Inr None, q)
         | (Some h, q) \<Rightarrow>
             (case Virtio_net_request_ctor h (vq_avail q ! h) of
                Inl e \<Rightarrow> (Inl e, q)
              | Inr request \<Rightarrow>
                  if valid request then (Inr (Some request), q)
                  else (Inr None, request_finish request q))))"

section \<open>Ingress policy (Virtio_port::get_tx_request, port.h)\<close>

text \<open>
  The result is the exception raised, or the request (\<open>None\<close> when the frame
  is dropped or there is none), and the transmit queue afterwards. Returning
  no request destroys the one that was pulled, which finishes its head.
\<close>

definition get_tx_request ::
  "vlan_consts \<Rightarrow> Virtio_port \<Rightarrow> (exn + Virtio_net_request option) \<times> Virtqueue" where
  "get_tx_request K p =
     (case get_request (tx_q p) of
        (Inl e, q) \<Rightarrow> (Inl e, q)
      | (Inr None, q) \<Rightarrow> (Inr None, q)
      | (Inr (Some ret), q) \<Rightarrow>
          if is_trunk K p then
            (if request_vlan_id K ret \<notin> vlan_ids p
             then (Inr None, request_finish ret q)
             else (Inr (Some ret), q))
          else if is_access K p \<and> has_vlan ret
          then (Inr None, request_finish ret q)
          else (Inr (Some ret), q))"

section \<open>The transfer engine (Virtio_net_transfer::transfer, transfer.h)\<close>

datatype Result = Delivered | Exception | Dropped

text \<open>
  How a call ends: it returns a result, lets an exception propagate, or stops
  at a failing \<open>assert\<close>.
\<close>

datatype outcome = Returned Result | Threw exn | Assert_failed

text \<open>
  Modelled from the spec: the state of a \<open>Virtio_vlan_mangle\<close> and its
  \<open>copy_pkt\<close>, both from the missing vlan.h, on byte counts. The mangle copies
  verbatim, or inserts four tag bytes after the destination and source MAC
  addresses (twelve bytes), or skips four source bytes there; its counters let
  it find that place across buffer boundaries. One call of \<open>copy_pkt\<close> takes the
  room left in the destination buffer and the bytes left in the source buffer
  and returns the number of bytes written, both buffers afterwards, and the
  mangle afterwards.
\<close>

record mangle_st =
  mg_kind :: Virtio_vlan_mangle
  mg_mac_remaining :: nat
  mg_tag_remaining :: nat

definition mangle_start :: "Virtio_vlan_mangle \<Rightarrow> mangle_st" where
  "mangle_start m =
     (case m of
        Mangle_none \<Rightarrow> \<lparr> mg_kind = m, mg_mac_remaining = 0, mg_tag_remaining = 0 \<rparr>
      | Mangle_add v \<Rightarrow> \<lparr> mg_kind = m, mg_mac_remaining = 12, mg_tag_remaining = 4 \<rparr>
      | Mangle_remove \<Rightarrow> \<lparr> mg_kind = m, mg_mac_remaining = 12, mg_tag_remaining = 4 \<rparr>)"

definition copy_pkt :: "mangle_st \<Rightarrow> nat \<Rightarrow> nat \<Rightarrow> nat \<times> nat \<times> nat \<times> mangle_st" where
  "copy_pkt m dst_left src_left =
     (if mg_kind m = Mangle_none then
        (let n = min src_left dst_left in (n, dst_left - n, src_left - n, m))
      else if mg_mac_remaining m \<noteq> 0 then
        (let n = min (min src_left dst_left) (mg_mac_remaining m)
         in (n, dst_left - n, src_left - n, m\<lparr> mg_mac_remaining := mg_mac_remaining m - n \<rparr>))
      else if mg_tag_remaining m \<noteq> 0 then
        (if mg_kind m = Mangle_remove then
           (let n = min src_left (mg_tag_remaining m)
            in (0, dst_left, src_left - n, m\<lparr> mg_tag_remaining := mg_tag_remaining m - n \<rparr>))
         else
           (let n = min dst_left (mg_tag_remaining m)
            in (n, dst_left - n, src_left, m\<lparr> mg_tag_remaining := mg_tag_remaining m - n \<rparr>)))
      else
        (let n = min src_left dst_left in (n, dst_left - n, src_left - n, m)))"

text \<open>
  The local variables of \<open>transfer\<close>. The buffers \<open>src\<close> and \<open>dst\<close> are kept as
  the number of bytes left in them, the request processors as the descriptors
  they have not loaded yet. \<open>dst_header\<close> is the head of the chain whose first
  buffer holds the header (\<open>None\<close> is the null pointer), \<open>tr_num_buffers\<close> the
  value written to its \<open>num_buffers\<close> field, if any. \<open>tr_dst_dev_error\<close> records
  a call of \<open>dst_dev->device_error()\<close>. The bytes copied are not kept.
\<close>

record xfer =
  tr_src :: nat
  tr_src_req_proc :: "desc list"
  tr_dst :: nat
  tr_dst_req_proc :: "desc list"
  tr_total :: "32 word"
  tr_num_merged :: "16 word"
  tr_consumed :: "(nat \<times> 32 word) list"
  tr_dst_head :: "nat option"
  tr_dst_header :: "nat option"
  tr_num_buffers :: "16 word option"
  tr_mangle :: mangle_st
  tr_dst_queue :: Virtqueue
  tr_dst_dev_error :: bool

definition transfer_init ::
  "Virtio_net_request \<Rightarrow> Virtqueue \<Rightarrow> Virtio_vlan_mangle \<Rightarrow> xfer" where
  "transfer_init request dst_queue mangle =
     \<lparr> tr_src = length (req_pkt request), tr_src_req_proc = req_proc request,
       tr_dst = 0, tr_dst_req_proc = [],
       tr_total = 0, tr_num_merged = 0, tr_consumed = [],
       tr_dst_head = None, tr_dst_header = None, tr_num_buffers = None,
       tr_mangle = mangle_start mangle,
       tr_dst_queue = dst_queue, tr_dst_dev_error = False \<rparr>"

text \<open>The code after the loop: finalising the delivery.\<close>

definition after_loop :: "xfer \<Rightarrow> outcome \<times> xfer" where
  "after_loop st =
     (if tr_dst_header st = None then (Returned Dropped, st)
      else if tr_consumed st = [] then
        (case tr_dst_head st of
           None \<Rightarrow> (Assert_failed, st)
         | Some h \<Rightarrow>
             if tr_num_merged st \<noteq> 1 then (Assert_failed, st)
             else (Returned Delivered,
                   st\<lparr> tr_num_buffers := Some 1,
                       tr_dst_queue := finish h (tr_total st) (tr_dst_queue st) \<rparr>))
      else
        (case tr_dst_head st of
           None \<Rightarrow> (Assert_failed, st)
         | Some h \<Rightarrow>
             (Returned Delivered,
              st\<lparr> tr_num_buffers := Some (tr_num_merged st),
                  tr_consumed := tr_consumed st @ [(h, tr_total st)],
                  tr_dst_queue :=
                    finish_range (tr_consumed st @ [(h, tr_total st)]) (tr_dst_queue st) \<rparr>)))"

text \<open>
  One iteration of the loop, in four parts. Each part either ends the call
  (\<open>Inl\<close>) or goes on (\<open>Inr\<close>). First the source: when the source buffer is
  done the next one is loaded; none left ends the loop, a bad descriptor
  rewinds the destination queue and rethrows.
\<close>

definition src_phase :: "xfer \<Rightarrow> (outcome \<times> xfer) + xfer" where
  "src_phase st =
     (if tr_src st = 0 then
        (case tr_src_req_proc st of
           [] \<Rightarrow> Inl (after_loop st)
         | Bad_desc # ds \<Rightarrow>
             Inl (Threw Bad_descriptor,
                  (case tr_consumed st of
                     c # cs \<Rightarrow> st\<lparr> tr_dst_queue := rewind_avail (fst c) (tr_dst_queue st) \<rparr>
                   | [] \<Rightarrow>
                       (case tr_dst_head st of
                          Some h \<Rightarrow> st\<lparr> tr_dst_queue := rewind_avail h (tr_dst_queue st) \<rparr>
                        | None \<Rightarrow> st)))
         | Buf bs # ds \<Rightarrow> Inr (st\<lparr> tr_src := length bs, tr_src_req_proc := ds \<rparr>))
      else Inr st)"

text \<open>Then the destination chain: the block under \<open>if (!dst_head)\<close>.\<close>

definition dst_phase :: "xfer \<Rightarrow> (outcome \<times> xfer) + xfer" where
  "dst_phase st =
     (if tr_dst_head st \<noteq> None then Inr st
      else if \<not> ready (tr_dst_queue st) then Inl (Returned Dropped, st)
      else
        (case next_avail (tr_dst_queue st) of
           (None, q) \<Rightarrow>
             Inl (Returned Dropped,
                  (case tr_consumed st of
                     [] \<Rightarrow> st
                   | c # cs \<Rightarrow> st\<lparr> tr_dst_queue := rewind_avail (fst c) (tr_dst_queue st) \<rparr>))
         | (Some r, q) \<Rightarrow>
             (case fst (vq_avail q ! r) of
                Bad_desc \<Rightarrow>
                  Inl (Returned Exception, st\<lparr> tr_dst_queue := q, tr_dst_dev_error := True \<rparr>)
              | Buf bs \<Rightarrow>
                  (let st1 = st\<lparr> tr_dst_queue := q, tr_dst_head := Some r,
                                  tr_dst := length bs,
                                  tr_dst_req_proc := snd (vq_avail q ! r) \<rparr>
                   in if tr_dst_header st1 = None then
                        (if tr_dst st1 < Hdr_size then Inl (Threw Runtime_error, st1)
                         else Inr (st1\<lparr> tr_dst_header := Some r,
                                        tr_total := of_nat Hdr_size,
                                        tr_dst := tr_dst st1 - Hdr_size,
                                        tr_num_merged := tr_num_merged st1 + 1 \<rparr>))
                      else Inr (st1\<lparr> tr_num_merged := tr_num_merged st1 + 1 \<rparr>)))))"

text \<open>Then \<open>dst_req_proc.next\<close>, called in every iteration.\<close>

definition dst_next_phase :: "xfer \<Rightarrow> (outcome \<times> xfer) + (bool \<times> xfer)" where
  "dst_next_phase st =
     (case tr_dst_req_proc st of
        [] \<Rightarrow> Inr (False, st)
      | Bad_desc # ds \<Rightarrow> Inl (Returned Exception, st\<lparr> tr_dst_dev_error := True \<rparr>)
      | Buf bs # ds \<Rightarrow> Inr (True, st\<lparr> tr_dst := length bs, tr_dst_req_proc := ds \<rparr>))"

text \<open>Last, copying, or saving the full chain for later.\<close>

definition copy_phase :: "bool \<Rightarrow> xfer \<Rightarrow> xfer" where
  "copy_phase has_next_dst_buffer st =
     (if tr_dst st \<noteq> 0 \<or> has_next_dst_buffer then
        (case copy_pkt (tr_mangle st) (tr_dst st) (tr_src st) of
           (n, d, s, m) \<Rightarrow>
             st\<lparr> tr_total := tr_total st + of_nat n, tr_dst := d, tr_src := s,
                 tr_mangle := m \<rparr>)
      else
        (case tr_dst_head st of
           None \<Rightarrow> st
         | Some h \<Rightarrow>
             st\<lparr> tr_consumed := tr_consumed st @ [(h, tr_total st)],
                 tr_total := 0, tr_dst_head := None \<rparr>))"

definition xfer_step :: "xfer \<Rightarrow> (outcome \<times> xfer) + xfer" where
  "xfer_step st =
     (case src_phase st of
        Inl r \<Rightarrow> Inl r
      | Inr st1 \<Rightarrow>
          (case dst_phase st1 of
             Inl r \<Rightarrow> Inl r
           | Inr st2 \<Rightarrow>
               (case dst_next_phase st2 of
                  Inl r \<Rightarrow> Inl r
                | Inr hs \<Rightarrow> Inr (copy_phase (fst hs) (snd hs)))))"

text \<open>
  What bounds the loop: the descriptors the destination queue can still hand
  out, whether a destination chain is open, and what is left of the source.
\<close>

definition pending_descs :: "Virtqueue \<Rightarrow> nat" where
  "pending_descs q =
     sum_list (map (\<lambda>c. Suc (length (snd c))) (drop (vq_current_avail q) (vq_avail q)))"

definition dst_descs :: "xfer \<Rightarrow> nat" where
  "dst_descs st = pending_descs (tr_dst_queue st) + length (tr_dst_req_proc st)"

definition head_open :: "xfer \<Rightarrow> nat" where
  "head_open st = (if tr_dst_head st = None then 0 else 1)"

text \<open>Every iteration that goes on makes this measure smaller.\<close>

lemma pending_descs_next:
  "next_avail q = (Some r, q') \<Longrightarrow>
     pending_descs q = Suc (length (snd (vq_avail q' ! r))) + pending_descs q'"
  by (auto simp: next_avail_def desc_avail_def pending_descs_def
        Cons_nth_drop_Suc[symmetric] split: if_splits)

lemma src_phase_measure:
  "src_phase st = Inr st1 \<Longrightarrow>
     dst_descs st1 = dst_descs st \<and> head_open st1 = head_open st \<and> tr_dst st1 = tr_dst st \<and>
     tr_mangle st1 = tr_mangle st \<and>
     (length (tr_src_req_proc st1) < length (tr_src_req_proc st) \<or>
      (st1 = st \<and> tr_src st \<noteq> 0))"
  by (auto simp: src_phase_def dst_descs_def head_open_def
        split: if_splits list.splits desc.splits)

lemma dst_phase_measure:
  "dst_phase st = Inr st2 \<Longrightarrow>
     tr_src st2 = tr_src st \<and> tr_src_req_proc st2 = tr_src_req_proc st \<and>
     tr_mangle st2 = tr_mangle st \<and>
     head_open st2 = 1 \<and> (dst_descs st2 < dst_descs st \<or> st2 = st)"
  by (auto simp: dst_phase_def dst_descs_def head_open_def Let_def
        dest!: pending_descs_next
        split: if_splits list.splits desc.splits prod.splits option.splits)

lemma dst_next_phase_measure:
  "dst_next_phase st = Inr (hn, st3) \<Longrightarrow>
     tr_src st3 = tr_src st \<and> tr_src_req_proc st3 = tr_src_req_proc st \<and>
     tr_mangle st3 = tr_mangle st \<and>
     head_open st3 = head_open st \<and>
     ((hn \<and> dst_descs st3 < dst_descs st) \<or> (\<not> hn \<and> st3 = st))"
  by (auto simp: dst_next_phase_def dst_descs_def head_open_def
        split: if_splits list.splits desc.splits)

lemma copy_pkt_progress:
  "copy_pkt m d s = (n, d', s', m') \<Longrightarrow> d \<noteq> 0 \<Longrightarrow> s \<noteq> 0 \<Longrightarrow>
     s' < s \<or> (s' = s \<and> d' < d)"
  by (auto simp: copy_pkt_def Let_def split: if_splits)

lemma copy_pkt_le:
  "copy_pkt m d s = (n, d', s', m') \<Longrightarrow> s' \<le> s \<and> d' \<le> d"
  by (auto simp: copy_pkt_def Let_def split: if_splits)

lemma copy_phase_measure:
  "dst_descs (copy_phase hn st) = dst_descs st \<and>
   tr_src_req_proc (copy_phase hn st) = tr_src_req_proc st \<and>
   (if tr_dst st \<noteq> 0 \<or> hn
    then head_open (copy_phase hn st) = head_open st \<and> tr_src (copy_phase hn st) \<le> tr_src st \<and>
         (tr_dst st \<noteq> 0 \<and> tr_src st \<noteq> 0 \<longrightarrow>
            tr_src (copy_phase hn st) < tr_src st \<or>
            (tr_src (copy_phase hn st) = tr_src st \<and> tr_dst (copy_phase hn st) < tr_dst st))
    else (head_open st = 1 \<longrightarrow> head_open (copy_phase hn st) = 0))"
  by (auto simp: copy_phase_def dst_descs_def head_open_def
        dest: copy_pkt_progress copy_pkt_le
        split: prod.splits option.splits)

lemma xfer_step_decreases:
  assumes "xfer_step st = Inr st'"
  shows "(st', st) \<in> measures [dst_descs, head_open, \<lambda>s. length (tr_src_req_proc s), tr_src, tr_dst]"
proof -
  from assms obtain st1 st2 hn st3 where
    p1: "src_phase st = Inr st1" and p2: "dst_phase st1 = Inr st2"
    and p3: "dst_next_phase st2 = Inr (hn, st3)" and p4: "st' = copy_phase hn st3"
    by (auto simp: xfer_step_def split: sum.splits)
  note m1 = src_phase_measure[OF p1] and m2 = dst_phase_measure[OF p2]
    and m3 = dst_next_phase_measure[OF p3] and m4 = copy_phase_measure[of hn st3]
  have D4: "dst_descs st' = dst_descs st3" and S4: "tr_src_req_proc st' = tr_src_req_proc st3"
    using m4 p4 by simp_all
  have H0: "head_open st2 = 1" using m2 by simp
  consider (acq) "dst_descs st2 < dst_descs st1"
    | (nxt) "st2 = st1" "hn" "dst_descs st3 < dst_descs st2"
    | (same) "st2 = st1" "\<not> hn" "st3 = st2"
    using m2 m3 by blast
  then show ?thesis
  proof cases
    case acq
    then have "dst_descs st' < dst_descs st" using m1 m3 D4 by auto
    then show ?thesis by simp
  next
    case nxt
    then have "dst_descs st' < dst_descs st" using m1 D4 by auto
    then show ?thesis by simp
  next
    case same
    then have eq: "st3 = st1" by simp
    have Deq: "dst_descs st' = dst_descs st" using D4 eq m1 by simp
    have H1: "head_open st = 1" using H0 same m1 by simp
    show ?thesis
    proof (cases "tr_dst st3 \<noteq> 0")
      case False
      then have "head_open st' = 0" using m4 p4 same H0 by (simp split: if_splits)
      then show ?thesis using Deq H1 by simp
    next
      case True
      then have Heq: "head_open st' = head_open st" using m4 p4 H0 H1 same by (simp split: if_splits)
      from m1 have "length (tr_src_req_proc st1) < length (tr_src_req_proc st) \<or>
                    (st1 = st \<and> tr_src st \<noteq> 0)" by simp
      then show ?thesis
      proof
        assume "length (tr_src_req_proc st1) < length (tr_src_req_proc st)"
        then show ?thesis using Deq Heq S4 eq by simp
      next
        assume a: "st1 = st \<and> tr_src st \<noteq> 0"
        then have "tr_src st' < tr_src st \<or> (tr_src st' = tr_src st \<and> tr_dst st' < tr_dst st)"
          using m4 p4 True eq by (simp split: if_splits)
        then show ?thesis using Deq Heq S4 eq a by auto
      qed
    qed
  qed
qed

text \<open>The loop, and \<open>transfer\<close> itself.\<close>

function transfer_loop :: "xfer \<Rightarrow> outcome \<times> xfer" where
  "transfer_loop st = (case xfer_step st of Inl r \<Rightarrow> r | Inr st' \<Rightarrow> transfer_loop st')"
  by pat_completeness auto
termination
proof (relation "measures [dst_descs, head_open, \<lambda>s. length (tr_src_req_proc s), tr_src, tr_dst]")
  show "wf (measures [dst_descs, head_open, \<lambda>s. length (tr_src_req_proc s), tr_src, tr_dst])"
    by simp
next
  fix st st'
  assume "xfer_step st = Inr st'"
  then show "(st', st) \<in> measures [dst_descs, head_open, \<lambda>s. length (tr_src_req_proc s), tr_src, tr_dst]"
    by (rule xfer_step_decreases)
qed

declare transfer_loop.simps [simp del]

definition transfer ::
  "Virtio_net_request \<Rightarrow> Virtqueue \<Rightarrow> Virtio_vlan_mangle \<Rightarrow> outcome \<times> xfer" where
  "transfer request dst_queue mangle = transfer_loop (transfer_init request dst_queue mangle)"

section \<open>The switch (switch.h, switch.cc)\<close>

text \<open>
  Ports are objects referred to by pointers; the forwarding code compares
  pointers. A pointer is the address of the object (a number), \<open>None\<close> the
  null pointer, and \<open>objs\<close> holds the port objects by address. \<open>_ports\<close> is
  the array of \<open>_max_ports\<close> pointers. \<open>Mac_table<>\<close> has the default size.
\<close>

record Virtio_switch =
  objs :: "nat \<Rightarrow> Virtio_port"
  sw_ports :: "nat option list"
  sw_monitor :: "nat option"
  max_ports :: nat
  max_used :: nat
  sw_mac_table :: "nat Mac_table"

definition Mac_table_Size :: nat where
  "Mac_table_Size = 1024"

text \<open>
  The constructor, given the port objects that exist. It sets \<open>_max_ports\<close> and
  \<open>_max_used\<close> and allocates \<open>_ports\<close> with null entries. It does not
  initialise \<open>_monitor\<close>: the value the member holds afterwards is not
  determined by the code and is the parameter \<open>mon\<close>.
\<close>

definition Virtio_switch_ctor ::
  "(nat \<Rightarrow> Virtio_port) \<Rightarrow> nat \<Rightarrow> nat option \<Rightarrow> Virtio_switch" where
  "Virtio_switch_ctor os n mon =
     \<lparr> objs = os, sw_ports = replicate n None, sw_monitor = mon,
       max_ports = n, max_used = 0, sw_mac_table = Mac_table_init Mac_table_Size \<rparr>"

text \<open>\<open>lookup_free_slot\<close>: the first null entry of \<open>_ports\<close>; \<open>None\<close> is -1.\<close>

primrec first_free :: "nat option list \<Rightarrow> nat \<Rightarrow> nat option" where
  "first_free [] idx = None"
| "first_free (x # xs) idx = (if x = None then Some idx else first_free xs (idx + 1))"

definition lookup_free_slot :: "Virtio_switch \<Rightarrow> nat option" where
  "lookup_free_slot sw = first_free (take (max_ports sw) (sw_ports sw)) 0"

definition add_port :: "nat \<Rightarrow> Virtio_switch \<Rightarrow> bool \<times> Virtio_switch" where
  "add_port p sw =
     (if port_mac (objs sw p) \<noteq> Addr_unknown \<and>
         list_ex (\<lambda>x. case x of None \<Rightarrow> False
                      | Some q \<Rightarrow> port_mac (objs sw q) = port_mac (objs sw p))
           (take (max_ports sw) (sw_ports sw))
      then (False, sw)
      else
        (case lookup_free_slot sw of
           None \<Rightarrow> (False, sw)
         | Some uidx \<Rightarrow>
             (True, sw\<lparr> sw_ports := (sw_ports sw)[uidx := Some p],
                        max_used := (if max_used sw = uidx then max_used sw + 1
                                     else max_used sw) \<rparr>)))"

definition add_monitor_port :: "nat \<Rightarrow> Virtio_switch \<Rightarrow> bool \<times> Virtio_switch" where
  "add_monitor_port p sw =
     (if sw_monitor sw = None then (True, sw\<lparr> sw_monitor := Some p \<rparr>) else (False, sw))"

text \<open>
  \<open>check_ports\<close>. Whether the client of a port has gone is decided by the
  capability system: the predicate \<open>gone\<close>.
\<close>

function check_ports_loop :: "(nat \<Rightarrow> bool) \<Rightarrow> nat \<Rightarrow> Virtio_switch \<Rightarrow> Virtio_switch" where
  "check_ports_loop gone idx sw =
     (if idx < max_used sw then
        (case sw_ports sw ! idx of
           None \<Rightarrow> check_ports_loop gone (idx + 1) sw
         | Some p \<Rightarrow>
             if gone p then
               check_ports_loop gone (idx + 1)
                 (sw\<lparr> sw_ports := (sw_ports sw)[idx := None],
                      max_used := (if idx = max_used sw - 1 then max_used sw - 1
                                   else max_used sw),
                      sw_mac_table := flush p (sw_mac_table sw) \<rparr>)
             else check_ports_loop gone (idx + 1) sw)
      else sw)"
  by pat_completeness auto
termination
  by (relation "measure (\<lambda>(gone, idx, sw). max_used sw - idx)") auto

definition check_ports :: "(nat \<Rightarrow> bool) \<Rightarrow> Virtio_switch \<Rightarrow> Virtio_switch" where
  "check_ports gone sw =
     (let sw' = check_ports_loop gone 0 sw
      in case sw_monitor sw' of
           None \<Rightarrow> sw'
         | Some m \<Rightarrow> if gone m then sw'\<lparr> sw_monitor := None \<rparr> else sw')"

text \<open>
  What stops \<open>handle_tx_queue\<close> before its end: an exception that propagates,
  or a failing \<open>assert\<close>.
\<close>

datatype stop = Thrown exn | Aborted

text \<open>
  A call of \<open>Virtio_port::handle_request\<close>, made on the port given, by the
  forwarding code (the unicast path or the flood loop) or by the code that
  sends a copy to the monitor port. The switch functions return the calls they
  make, in order.
\<close>

datatype hr_call = Switched nat | Mirrored nat

type_synonym sw_result = "stop option \<times> Virtio_switch \<times> hr_call list"

text \<open>
  \<open>handle_request\<close> of the port at address \<open>this\<close>: the mangle is chosen, and
  \<open>transfer\<close> runs on the receive queue of the port.
\<close>

definition handle_request ::
  "vlan_consts \<Rightarrow> nat \<Rightarrow> nat \<Rightarrow> Virtio_net_request \<Rightarrow> Virtio_switch \<Rightarrow>
     stop option \<times> Virtio_switch" where
  "handle_request K this src_port request sw =
     (let dst = objs sw this;
          mangle = handle_request_mangle K dst (objs sw src_port);
          r = transfer request (rx_q dst) mangle;
          dst' = dst\<lparr> rx_q := tr_dst_queue (snd r),
                      dev_error := (dev_error dst \<or> tr_dst_dev_error (snd r)) \<rparr>;
          sw' = sw\<lparr> objs := (objs sw)(this := dst') \<rparr>
      in case fst r of
           Returned res \<Rightarrow> (None, sw')
         | Threw e \<Rightarrow> (Some (Thrown e), sw')
         | Assert_failed \<Rightarrow> (Some Aborted, sw'))"

text \<open>The body of the flood loop and of the unicast path for one target.\<close>

definition deliver ::
  "vlan_consts \<Rightarrow> nat \<Rightarrow> nat \<Rightarrow> Virtio_net_request \<Rightarrow> 16 word \<Rightarrow> Virtio_switch \<Rightarrow>
     sw_result" where
  "deliver K target src_port request vlan sw =
     (if target \<noteq> src_port \<and> match_vlan (objs sw target) vlan
      then (case handle_request K target src_port request sw of
              (e, sw') \<Rightarrow> (e, sw', [Switched target]))
      else (None, sw, []))"

lemma handle_request_max_used:
  "max_used (snd (handle_request K this src_port request sw)) = max_used sw"
  by (simp add: handle_request_def Let_def split: outcome.splits)

lemma deliver_max_used:
  "deliver K target src_port request vlan sw = (e, sw', cs) \<Longrightarrow> max_used sw' = max_used sw"
  using handle_request_max_used[of K target src_port request sw]
  by (auto simp: deliver_def split: if_splits prod.splits)

text \<open>
  The flood loop, from index \<open>idx\<close> on:
  \<open>for (; idx < _max_used && _ports[idx]; ++idx)\<close>.
\<close>

function flood_loop ::
  "vlan_consts \<Rightarrow> nat \<Rightarrow> Virtio_net_request \<Rightarrow> 16 word \<Rightarrow> nat \<Rightarrow> Virtio_switch \<Rightarrow>
     sw_result" where
  "flood_loop K src_port request vlan idx sw =
     (if idx < max_used sw then
        (case sw_ports sw ! idx of
           None \<Rightarrow> (None, sw, [])
         | Some target \<Rightarrow>
             (case deliver K target src_port request vlan sw of
                (Some e, sw', cs) \<Rightarrow> (Some e, sw', cs)
              | (None, sw', cs) \<Rightarrow>
                  (case flood_loop K src_port request vlan (idx + 1) sw' of
                     (e, sw'', cs') \<Rightarrow> (e, sw'', cs @ cs'))))
      else (None, sw, []))"
  by pat_completeness auto
termination
  by (relation "measure (\<lambda>(K, src_port, request, vlan, idx, sw). max_used sw - idx)")
     (auto dest: deliver_max_used[OF sym])

declare flood_loop.simps [simp del]
declare check_ports_loop.simps [simp del]

text \<open>
  The copy for the monitor port. \<open>filter_request\<close> is the external filter
  hook: the parameter \<open>filt\<close>, true when the hook rejects the request.
\<close>

definition mirror ::
  "vlan_consts \<Rightarrow> (Virtio_net_request \<Rightarrow> bool) \<Rightarrow> nat \<Rightarrow> Virtio_net_request \<Rightarrow>
     Virtio_switch \<Rightarrow> sw_result" where
  "mirror K filt src_port request sw =
     (case sw_monitor sw of
        None \<Rightarrow> (None, sw, [])
      | Some m \<Rightarrow>
          if \<not> filt request
          then (case handle_request K m src_port request sw of
                  (e, sw') \<Rightarrow> (e, sw', [Mirrored m]))
          else (None, sw, []))"

text \<open>Running a second step unless the first one was stopped.\<close>

definition and_then :: "sw_result \<Rightarrow> (Virtio_switch \<Rightarrow> sw_result) \<Rightarrow> sw_result" where
  "and_then r f =
     (case r of
        (Some e, sw, cs) \<Rightarrow> (Some e, sw, cs)
      | (None, sw, cs) \<Rightarrow> (case f sw of (e, sw', cs') \<Rightarrow> (e, sw', cs @ cs')))"

text \<open>
  \<open>handle_tx_queue\<close> from the lookup of the destination on, that is, once the
  request has been pulled and its source address learned.
\<close>

definition forward ::
  "vlan_consts \<Rightarrow> (Virtio_net_request \<Rightarrow> bool) \<Rightarrow> nat \<Rightarrow> Virtio_net_request \<Rightarrow>
     16 word \<Rightarrow> Virtio_switch \<Rightarrow> sw_result" where
  "forward K filt src_port request vlan sw =
     (let flood = and_then (flood_loop K src_port request vlan 0 sw)
                    (mirror K filt src_port request)
      in if \<not> is_broadcast (dst_mac request) then
           (case lookup (sw_mac_table sw) (dst_mac request) of
              Some target \<Rightarrow>
                if target \<noteq> src_port \<and> match_vlan (objs sw target) vlan
                then and_then (deliver K target src_port request vlan sw)
                       (mirror K filt src_port request)
                else (None, sw, [])
            | None \<Rightarrow> flood)
         else flood)"

text \<open>
  \<open>handle_tx_queue\<close>. When the function is left, normally or by an exception,
  the request is destroyed, which finishes its head on the transmit queue of
  the source port; a failing \<open>assert\<close> ends the program before that.
\<close>

definition set_tx_q :: "nat \<Rightarrow> Virtqueue \<Rightarrow> Virtio_switch \<Rightarrow> Virtio_switch" where
  "set_tx_q p q sw = sw\<lparr> objs := (objs sw)(p := (objs sw p)\<lparr> tx_q := q \<rparr>) \<rparr>"

definition handle_tx_queue ::
  "vlan_consts \<Rightarrow> (Virtio_net_request \<Rightarrow> bool) \<Rightarrow> nat \<Rightarrow> Virtio_switch \<Rightarrow> sw_result" where
  "handle_tx_queue K filt src_port sw =
     (case get_tx_request K (objs sw src_port) of
        (Inl e, q) \<Rightarrow> (Some (Thrown e), set_tx_q src_port q sw, [])
      | (Inr None, q) \<Rightarrow> (None, set_tx_q src_port q sw, [])
      | (Inr (Some request), q) \<Rightarrow>
          (let sw1 = set_tx_q src_port q sw;
               src = src_mac request;
               sw2 = sw1\<lparr> sw_mac_table :=
                            learn Mac_table_Size src src_port (sw_mac_table sw1) \<rparr>;
               vlan = (if has_vlan request then request_vlan_id K request
                       else get_vlan (objs sw2 src_port))
           in case forward K filt src_port request vlan sw2 of
                (e, sw3, cs) \<Rightarrow>
                  (e, (if e = Some Aborted then sw3
                       else set_tx_q src_port
                              (request_finish request (tx_q (objs sw3 src_port))) sw3),
                   cs)))"

section \<open>Predicates used in the proofs\<close>

text \<open>
  The table after the pairs \<open>xs\<close> (distinct addresses) have been learned,
  starting from the empty one: the cursor is at \<open>length xs mod Size\<close>, each of
  the last \<open>Size\<close> pairs sits in the slot of its number modulo \<open>Size\<close> and is
  indexed there, no other address is indexed, and the slots not reached yet are
  empty.
\<close>

definition rr_state :: "nat \<Rightarrow> (Mac_addr \<times> 'p) list \<Rightarrow> 'p Mac_table \<Rightarrow> bool" where
  "rr_state Size xs t =
     (length (entries t) = Size \<and> rr_index t = length xs mod Size \<and>
      (\<forall>j < length xs. length xs \<le> j + Size \<longrightarrow>
          map_of (mac_table t) (fst (xs ! j)) = Some (j mod Size) \<and>
          entries t ! (j mod Size) =
            \<lparr> entry_port = Some (snd (xs ! j)), entry_addr = fst (xs ! j) \<rparr>) \<and>
      (\<forall>m. m \<notin> fst ` set (drop (length xs - Size) xs) \<longrightarrow> map_of (mac_table t) m = None) \<and>
      (\<forall>i < Size. length xs \<le> i \<longrightarrow> entry_port (entries t ! i) = None))"

text \<open>
  What holds of the local variables of \<open>transfer\<close> at the start of every
  iteration, \<open>q0\<close> being the destination queue the call was given: the queue
  differs from \<open>q0\<close> in its position only, the chains consumed are the ones
  from the position of \<open>q0\<close> on, and \<open>num_merged\<close> counts them.
\<close>

definition xfer_inv :: "Virtqueue \<Rightarrow> xfer \<Rightarrow> bool" where
  "xfer_inv q0 st =
     (vq_avail (tr_dst_queue st) = vq_avail q0 \<and>
      vq_ready (tr_dst_queue st) = vq_ready q0 \<and>
      vq_finished (tr_dst_queue st) = vq_finished q0 \<and>
      tr_num_buffers st = None \<and>
      map fst (tr_consumed st) =
        [vq_current_avail q0 ..< vq_current_avail q0 + length (tr_consumed st)] \<and>
      vq_current_avail (tr_dst_queue st) =
        vq_current_avail q0 + length (tr_consumed st) + head_open st \<and>
      (tr_dst_head st \<noteq> None \<longrightarrow>
         tr_dst_head st = Some (vq_current_avail q0 + length (tr_consumed st))) \<and>
      tr_num_merged st = of_nat (length (tr_consumed st) + head_open st) \<and>
      tr_dst_header st =
        (if length (tr_consumed st) + head_open st = 0 then None
         else Some (vq_current_avail q0)) \<and>
      (length (tr_consumed st) + head_open st \<noteq> 0 \<longrightarrow>
         vq_ready q0 \<and> vq_current_avail (tr_dst_queue st) \<le> length (vq_avail q0)))"

text \<open>What holds when the call ends with outcome \<open>r\<close> in state \<open>st\<close>.\<close>

definition xfer_post :: "Virtqueue \<Rightarrow> outcome \<Rightarrow> xfer \<Rightarrow> bool" where
  "xfer_post q0 r st =
     ((r = Returned Delivered \<longrightarrow>
         (\<exists>es. vq_finished (tr_dst_queue st) = vq_finished q0 @ [es] \<and>
               es \<noteq> [] \<and>
               map fst es = [vq_current_avail q0 ..< vq_current_avail q0 + length es] \<and>
               vq_current_avail (tr_dst_queue st) = vq_current_avail q0 + length es \<and>
               vq_current_avail (tr_dst_queue st) \<le> length (vq_avail q0) \<and>
               tr_num_buffers st = Some (of_nat (length es)) \<and>
               tr_num_merged st = of_nat (length es) \<and>
               vq_avail (tr_dst_queue st) = vq_avail q0 \<and>
               es = (if tr_consumed st = [] then [(vq_current_avail q0, tr_total st)]
                     else tr_consumed st) \<and>
               (tr_consumed st \<noteq> [] \<longrightarrow> 2 \<le> length es)) \<and>
         tr_dst_header st = Some (vq_current_avail q0)) \<and>
      (r = Returned Dropped \<longrightarrow> tr_dst_queue st = q0 \<and> tr_num_buffers st = None))"


text \<open>
  The state at the start of the iteration number \<open>n\<close> of the loop, counted
  from 0, or the outcome when the call has ended before.
\<close>

fun xfer_iter :: "nat \<Rightarrow> xfer \<Rightarrow> (outcome \<times> xfer) + xfer" where
  "xfer_iter 0 st = Inr st"
| "xfer_iter (Suc n) st =
     (case xfer_step st of Inl r \<Rightarrow> Inl r | Inr st' \<Rightarrow> xfer_iter n st')"

text \<open>
  An iteration cannot proceed for want of a destination chain: the source has
  data, no chain is open, and the destination queue is not ready or has no
  chain available.
\<close>

definition needs_dst_head :: "xfer \<Rightarrow> bool" where
  "needs_dst_head st =
     (case src_phase st of
        Inl r \<Rightarrow> False
      | Inr st1 \<Rightarrow>
          tr_dst_head st1 = None \<and>
          (\<not> ready (tr_dst_queue st1) \<or> \<not> desc_avail (tr_dst_queue st1)))"

text \<open>
  Two states of the switch that differ at most in the queues and error flags
  of the port objects: same port array, monitor and MAC table, and the same
  answers of \<open>match_vlan\<close>.
\<close>

definition cfg_eq :: "Virtio_switch \<Rightarrow> Virtio_switch \<Rightarrow> bool" where
  "cfg_eq sw' sw =
     (sw_ports sw' = sw_ports sw \<and> max_used sw' = max_used sw \<and>
      sw_monitor sw' = sw_monitor sw \<and> sw_mac_table sw' = sw_mac_table sw \<and>
      (\<forall>t v. match_vlan (objs sw' t) v = match_vlan (objs sw t) v))"


section \<open>The frame of a chain, in the words of the spec\<close>

text \<open>
  The spec speaks of the frame a client sends and of whether that frame
  carries an 802.1Q tag, not of buffers. \<open>spec_frame\<close> is the frame of a
  chain: the bytes of all its buffers, in order, after the virtio-net header.
  \<open>spec_frame_tagged\<close> says that the frame has the tag protocol identifier
  0x8100 after the two MAC addresses. Neither is part of the code, which has
  \<open>has_vlan\<close> for the test.
\<close>

fun desc_bytes :: "desc \<Rightarrow> 8 word list" where
  "desc_bytes (Buf bs) = bs"
| "desc_bytes Bad_desc = []"

definition spec_frame :: "chain \<Rightarrow> 8 word list" where
  "spec_frame c = drop Hdr_size (concat (map desc_bytes (fst c # snd c)))"

definition spec_frame_tagged :: "8 word list \<Rightarrow> bool" where
  "spec_frame_tagged f = (14 \<le> length f \<and> f ! 12 = 0x81 \<and> f ! 13 = 0)"

section \<open>Concrete frames, queues and ports for the examples\<close>

definition ex_consts :: vlan_consts where
  "ex_consts = \<lparr> VLAN_ID_NATIVE = 0xffff, VLAN_ID_TRUNK = 0xfffe \<rparr>"

text \<open>
  A chain of one buffer: a zero virtio-net header, then a broadcast frame from
  02:00:00:00:00:01 with an 802.1Q tag of VLAN 10.
\<close>

definition ex_tagged_chain :: chain where
  "ex_tagged_chain =
     (Buf [0, 0, 0, 0, 0, 0, 0, 0, 0, 0, 0, 0,
           0xff, 0xff, 0xff, 0xff, 0xff, 0xff, 2, 0, 0, 0, 0, 1,
           0x81, 0, 0, 10, 8, 0], [])"

definition ex_tx_queue :: Virtqueue where
  "ex_tx_queue =
     \<lparr> vq_ready = True, vq_avail = [ex_tagged_chain], vq_current_avail = 0,
       vq_finished = [] \<rparr>"

text \<open>An access port of VLAN 10 with that frame on its transmit queue.\<close>

definition ex_access_port :: Virtio_port where
  "ex_access_port = (new_port ex_consts Addr_unknown)\<lparr> vlan_id := 10, tx_q := ex_tx_queue \<rparr>"

text \<open>
  The same frame in a chain of two buffers: the first ends after the two MAC
  addresses, the second starts with the tag. The access port of VLAN 10 with
  this chain on its transmit queue is port 1 of a switch of four slots
  (\<open>_monitor\<close> null after construction); port 2 is another access port of
  VLAN 10 and port 3 a trunk port of VLAN 10, each with a receive queue
  offering one chain of 64 bytes.
\<close>

definition ex_split_chain :: chain where
  "ex_split_chain =
     (Buf [0, 0, 0, 0, 0, 0, 0, 0, 0, 0, 0, 0,
           0xff, 0xff, 0xff, 0xff, 0xff, 0xff, 2, 0, 0, 0, 0, 1],
      [Buf [0x81, 0, 0, 10, 8, 0]])"

definition ex_split_port :: Virtio_port where
  "ex_split_port =
     ex_access_port\<lparr> tx_q := ex_tx_queue\<lparr> vq_avail := [ex_split_chain] \<rparr> \<rparr>"

definition ex_rx64 :: Virtqueue where
  "ex_rx64 =
     \<lparr> vq_ready = True, vq_avail = [(Buf (replicate 64 0), [])],
       vq_current_avail = 0, vq_finished = [] \<rparr>"

definition ex_trunk_port :: Virtio_port where
  "ex_trunk_port =
     (case set_vlan_trunk ex_consts [10] ((new_port ex_consts Addr_unknown)\<lparr> rx_q := ex_rx64 \<rparr>) of
        Some p \<Rightarrow> p
      | None \<Rightarrow> new_port ex_consts Addr_unknown)"

definition ex_split_objs :: "nat \<Rightarrow> Virtio_port" where
  "ex_split_objs =
     (\<lambda>a. (new_port ex_consts Addr_unknown)\<lparr> vlan_id := 10, rx_q := ex_rx64 \<rparr>)
       (1 := ex_split_port, 3 := ex_trunk_port)"

definition ex_split_switch :: Virtio_switch where
  "ex_split_switch =
     snd (add_port 3 (snd (add_port 2 (snd (add_port 1
       (Virtio_switch_ctor ex_split_objs 4 None))))))"

text \<open>
  An untagged frame of 14 bytes followed by a second source buffer of 3 bytes,
  and a receive queue offering three chains of 20, 6 + 3 and 64 bytes.
\<close>

definition ex_request :: Virtio_net_request where
  "ex_request =
     \<lparr> req_head = 0, req_proc = [Buf [1, 2, 3]],
       req_header = Some [0, 0, 0, 0, 0, 0, 0, 0, 0, 0, 0, 0],
       req_pkt = [0xff, 0xff, 0xff, 0xff, 0xff, 0xff, 2, 0, 0, 0, 0, 1, 8, 0] \<rparr>"

definition ex_rx_queue :: Virtqueue where
  "ex_rx_queue =
     \<lparr> vq_ready = True,
       vq_avail = [(Buf (replicate 20 0), []),
                   (Buf (replicate 6 0), [Buf (replicate 3 0)]),
                   (Buf (replicate 64 0), [])],
       vq_current_avail = 0, vq_finished = [] \<rparr>"

text \<open>The same queue with the first chain only: too short for the frame.\<close>

definition ex_short_rx_queue :: Virtqueue where
  "ex_short_rx_queue = ex_rx_queue\<lparr> vq_avail := take 1 (vq_avail ex_rx_queue) \<rparr>"

text \<open>The same queue with the last chain only: it takes the whole frame.\<close>

definition ex_long_rx_queue :: Virtqueue where
  "ex_long_rx_queue = ex_rx_queue\<lparr> vq_avail := drop 2 (vq_avail ex_rx_queue) \<rparr>"

text \<open>Three addresses and the ports they are learned on.\<close>

definition ex_mac1 :: Mac_addr where
  "ex_mac1 = [2, 0, 0, 0, 0, 1]"

definition ex_mac2 :: Mac_addr where
  "ex_mac2 = [2, 0, 0, 0, 0, 2]"

definition ex_mac3 :: Mac_addr where
  "ex_mac3 = [2, 0, 0, 0, 0, 3]"

definition ex_learned :: "(Mac_addr \<times> nat) list" where
  "ex_learned = [(ex_mac1, 1), (ex_mac2, 2), (ex_mac3, 3)]"

text \<open>
  Three native ports at the addresses 1, 2 and 3, each with a receive queue
  offering one chain of 64 bytes; port 1 has an untagged broadcast frame from
  02:00:00:00:00:01 on its transmit queue. A switch of four slots, on which
  \<open>_monitor\<close> is null after construction, gets the three ports; then the
  client of port 2 goes away and \<open>check_ports\<close> runs.
\<close>

definition ex_bcast_chain :: chain where
  "ex_bcast_chain =
     (Buf [0, 0, 0, 0, 0, 0, 0, 0, 0, 0, 0, 0,
           0xff, 0xff, 0xff, 0xff, 0xff, 0xff, 2, 0, 0, 0, 0, 1, 8, 0, 1, 2], [])"

definition ex_native_port :: Virtio_port where
  "ex_native_port =
     (new_port ex_consts Addr_unknown)
       \<lparr> rx_q := \<lparr> vq_ready = True, vq_avail = [(Buf (replicate 64 0), [])],
                   vq_current_avail = 0, vq_finished = [] \<rparr> \<rparr>"

definition ex_sender_port :: Virtio_port where
  "ex_sender_port =
     ex_native_port
       \<lparr> tx_q := \<lparr> vq_ready = True, vq_avail = [ex_bcast_chain],
                   vq_current_avail = 0, vq_finished = [] \<rparr> \<rparr>"

definition ex_objs :: "nat \<Rightarrow> Virtio_port" where
  "ex_objs = (\<lambda>a. ex_native_port)(1 := ex_sender_port)"

definition ex_switch :: Virtio_switch where
  "ex_switch =
     snd (add_port 3 (snd (add_port 2 (snd (add_port 1
       (Virtio_switch_ctor ex_objs 4 None))))))"

definition ex_switch_after_check :: Virtio_switch where
  "ex_switch_after_check = check_ports (\<lambda>p. p = 2) ex_switch"

text \<open>
  A port at address 5 with a unicast frame from 02:00:00:00:00:01 to
  02:00:00:00:00:02 on its transmit queue, on a switch with the ports 5 and 2
  and a monitor port at address 4, whose MAC table has learned
  02:00:00:00:00:02 on port 5 itself. \<open>add_monitor_port\<close> accepts the monitor
  because \<open>_monitor\<close> is null after construction.
\<close>

definition ex_unicast_chain :: chain where
  "ex_unicast_chain =
     (Buf [0, 0, 0, 0, 0, 0, 0, 0, 0, 0, 0, 0,
           2, 0, 0, 0, 0, 2, 2, 0, 0, 0, 0, 1, 8, 0, 1, 2], [])"

definition ex_unicast_request :: Virtio_net_request where
  "ex_unicast_request =
     \<lparr> req_head = 0, req_proc = [],
       req_header = Some [0, 0, 0, 0, 0, 0, 0, 0, 0, 0, 0, 0],
       req_pkt = [2, 0, 0, 0, 0, 2, 2, 0, 0, 0, 0, 1, 8, 0, 1, 2] \<rparr>"

definition ex_unicast_objs :: "nat \<Rightarrow> Virtio_port" where
  "ex_unicast_objs =
     (\<lambda>a. ex_native_port)
       (5 := ex_native_port
               \<lparr> tx_q := \<lparr> vq_ready = True, vq_avail = [ex_unicast_chain],
                           vq_current_avail = 0, vq_finished = [] \<rparr> \<rparr>,
        4 := set_monitor ex_consts ex_native_port)"

definition ex_unicast_switch :: Virtio_switch where
  "ex_unicast_switch =
     (snd (add_monitor_port 4
        (snd (add_port 2 (snd (add_port 5 (Virtio_switch_ctor ex_unicast_objs 4 None)))))))
       \<lparr> sw_mac_table := learn Mac_table_Size ex_mac2 5 (Mac_table_init Mac_table_Size) \<rparr>"

section \<open>Monitor ports and VLAN matching\<close>

text \<open>
  C9, as the code has it. \<open>set_monitor\<close> makes the port a trunk port with a
  zero Bloom filter and does not touch the VLAN set, which is empty on a
  freshly constructed port. After \<open>set_monitor\<close>, \<open>match_vlan\<close> accepts the
  pseudo id \<open>VLAN_ID_TRUNK\<close> and no other id: the zero Bloom filter rejects
  every id that differs from the port's own \<open>_vlan_id\<close>.
\<close>

theorem set_monitor_match_vlan:
  "is_trunk K (set_monitor K p) \<and>
   vlan_bloom_filter (set_monitor K p) = 0 \<and>
   vlan_ids (set_monitor K (new_port K m)) = {} \<and>
   match_vlan (set_monitor K p) vid = (vid = VLAN_ID_TRUNK K)"
  by (simp add: is_trunk_def set_monitor_def new_port_def match_vlan_def)

text \<open>
  C9 as stated fails: a fresh port made a monitor does not match VLAN 10
  (the pseudo ids are instantiated with 0xffff and 0xfffe).
\<close>

theorem set_monitor_rejects_vlan_10:
  "\<not> match_vlan
       (set_monitor \<lparr> VLAN_ID_NATIVE = 0xffff, VLAN_ID_TRUNK = 0xfffe \<rparr>
          (new_port \<lparr> VLAN_ID_NATIVE = 0xffff, VLAN_ID_TRUNK = 0xfffe \<rparr> Addr_unknown))
       10"
  by (simp add: match_vlan_def set_monitor_def new_port_def)

section \<open>The mangle chosen at egress\<close>

text \<open>
  C6. The mangle chosen by \<open>handle_request\<close> is \<open>add(source vid)\<close> when the
  destination is a trunk port and the source an access port, none when the
  destination is a trunk port and the source a trunk or native port,
  \<open>remove\<close> when the destination is not a trunk port and the source is, and
  none in all remaining cases.
\<close>

theorem handle_request_mangle_cases:
  "handle_request_mangle K dst src_port =
     (if is_trunk K dst \<and> is_access K src_port then Mangle_add (vlan_id src_port)
      else if is_trunk K dst \<and> (is_trunk K src_port \<or> is_native K src_port) then Mangle_none
      else if \<not> is_trunk K dst \<and> is_trunk K src_port then Mangle_remove
      else Mangle_none)"
  by (auto simp: handle_request_mangle_def is_access_def)

section \<open>The transfer engine\<close>

lemma xfer_inv_init: "xfer_inv q (transfer_init request q mg)"
  by (simp add: xfer_inv_def transfer_init_def head_open_def)

lemma xfer_inv_src_phase:
  "xfer_inv q0 st \<Longrightarrow> src_phase st = Inr st1 \<Longrightarrow> xfer_inv q0 st1"
  by (auto simp: src_phase_def xfer_inv_def head_open_def split: if_splits list.splits desc.splits)

lemma xfer_inv_dst_phase:
  "xfer_inv q0 st \<Longrightarrow> dst_phase st = Inr st2 \<Longrightarrow> xfer_inv q0 st2 \<and> tr_dst_head st2 \<noteq> None"
  by (auto simp: dst_phase_def xfer_inv_def head_open_def Let_def next_avail_def desc_avail_def ready_def
      split: if_splits list.splits desc.splits prod.splits option.splits)

lemma xfer_inv_dst_next_phase:
  "xfer_inv q0 st \<Longrightarrow> dst_next_phase st = Inr (hn, st3) \<Longrightarrow>
     xfer_inv q0 st3 \<and> tr_dst_head st3 = tr_dst_head st"
  by (auto simp: dst_next_phase_def xfer_inv_def head_open_def split: if_splits list.splits desc.splits)

lemma xfer_inv_copy_phase:
  "xfer_inv q0 st \<Longrightarrow> tr_dst_head st \<noteq> None \<Longrightarrow> xfer_inv q0 (copy_phase hn st)"
  by (auto simp: copy_phase_def xfer_inv_def head_open_def split: if_splits prod.splits option.splits)

lemma xfer_inv_step:
  assumes "xfer_inv q0 st" "xfer_step st = Inr st'"
  shows "xfer_inv q0 st'"
proof -
  from assms(2) obtain st1 st2 hn st3 where
    p1: "src_phase st = Inr st1" and p2: "dst_phase st1 = Inr st2"
    and p3: "dst_next_phase st2 = Inr (hn, st3)" and p4: "st' = copy_phase hn st3"
    by (auto simp: xfer_step_def split: sum.splits)
  have i1: "xfer_inv q0 st1" using assms(1) p1 by (rule xfer_inv_src_phase)
  have i2: "xfer_inv q0 st2 \<and> tr_dst_head st2 \<noteq> None" using i1 p2 by (rule xfer_inv_dst_phase)
  have i3: "xfer_inv q0 st3 \<and> tr_dst_head st3 = tr_dst_head st2"
    using i2 p3 xfer_inv_dst_next_phase[of q0 st2 hn st3] by simp
  show ?thesis unfolding p4 using i2 i3 by (simp add: xfer_inv_copy_phase)
qed

lemma xfer_post_after_loop:
  "xfer_inv q0 st \<Longrightarrow> after_loop st = (r, st') \<Longrightarrow> xfer_post q0 r st'"
  by (auto simp: after_loop_def xfer_inv_def xfer_post_def head_open_def finish_def
      finish_range_def Suc_le_eq
      split: if_splits option.splits)


lemma xfer_inv_consumed_hd:
  assumes "xfer_inv q0 st" "tr_consumed st = c # cs"
  shows "fst c = vq_current_avail q0"
proof -
  have "map fst (tr_consumed st) =
          [vq_current_avail q0 ..< vq_current_avail q0 + length (tr_consumed st)]"
    using assms(1) by (simp add: xfer_inv_def)
  then have "[vq_current_avail q0 ..< vq_current_avail q0 + Suc (length cs)] = fst c # map fst cs"
    using assms(2) by (simp del: upt_Suc)
  then show ?thesis unfolding upt_eq_Cons_conv by simp
qed

lemma xfer_post_step:
  assumes inv: "xfer_inv q0 st" and fin: "xfer_step st = Inl (r, st')"
  shows "xfer_post q0 r st'"
proof (cases "src_phase st")
  case (Inl a)
  then have a: "a = (r, st')" using fin by (simp add: xfer_step_def)
  show ?thesis
  proof (cases "tr_src st = 0 \<and> tr_src_req_proc st = []")
    case True
    then have "after_loop st = (r, st')" using Inl a by (simp add: src_phase_def)
    with inv show ?thesis by (rule xfer_post_after_loop)
  next
    case False
    then have "r = Threw Bad_descriptor" using Inl a
      by (auto simp: src_phase_def split: if_splits list.splits desc.splits)
    then show ?thesis by (simp add: xfer_post_def)
  qed
next
  case (Inr st1)
  then have i1: "xfer_inv q0 st1" using inv by (simp add: xfer_inv_src_phase)
  show ?thesis
  proof (cases "dst_phase st1")
    case (Inl a)
    then have a: "a = (r, st')" using fin Inr by (simp add: xfer_step_def)
    have q1: "vq_avail (tr_dst_queue st1) = vq_avail q0" "vq_ready (tr_dst_queue st1) = vq_ready q0"
      "vq_finished (tr_dst_queue st1) = vq_finished q0" "tr_num_buffers st1 = None"
      using i1 by (simp_all add: xfer_inv_def)
    have pos: "vq_current_avail (tr_dst_queue st1) = vq_current_avail q0"
      if "tr_consumed st1 = []" "tr_dst_head st1 = None"
      using i1 that by (simp add: xfer_inv_def head_open_def)
    have hd: "fst c = vq_current_avail q0" if "tr_consumed st1 = c # cs" for c cs
      using i1 that by (rule xfer_inv_consumed_hd)
    have nr: "tr_consumed st1 = []" if "\<not> vq_ready q0"
      using i1 that by (auto simp: xfer_inv_def)
    have "r \<noteq> Returned Delivered \<and> (r = Returned Dropped \<longrightarrow> tr_dst_queue st' = q0 \<and> tr_num_buffers st' = None)"
      using Inl a q1 pos hd nr
      by (auto simp: dst_phase_def Let_def next_avail_def ready_def rewind_avail_def
          intro!: Virtqueue.equality
          split: if_splits list.splits desc.splits prod.splits option.splits)
    then show ?thesis by (simp add: xfer_post_def)
  next
    case (Inr st2)
    then obtain a where "dst_next_phase st2 = Inl a" "a = (r, st')"
      using fin \<open>src_phase st = Inr st1\<close> by (auto simp: xfer_step_def split: sum.splits)
    then have "r = Returned Exception"
      by (auto simp: dst_next_phase_def split: list.splits desc.splits)
    then show ?thesis by (simp add: xfer_post_def)
  qed
qed

lemma transfer_loop_post:
  "xfer_inv q0 st \<Longrightarrow> transfer_loop st = (r, st') \<Longrightarrow> xfer_post q0 r st'"
proof (induction st rule: transfer_loop.induct)
  case (1 st)
  show ?case
  proof (cases "xfer_step st")
    case (Inl a)
    then have "xfer_step st = Inl (r, st')"
      using "1.prems"(2) by (simp add: transfer_loop.simps[of st])
    with "1.prems"(1) show ?thesis by (rule xfer_post_step)
  next
    case (Inr st1)
    then have "transfer_loop st1 = (r, st')"
      using "1.prems"(2) by (simp add: transfer_loop.simps[of st])
    moreover have "xfer_inv q0 st1" using "1.prems"(1) Inr by (rule xfer_inv_step)
    ultimately show ?thesis using "1.IH" Inr by simp
  qed
qed


lemma xfer_iter_loop:
  "xfer_iter n st0 = Inr st \<Longrightarrow> transfer_loop st0 = transfer_loop st"
proof (induction n arbitrary: st0)
  case 0
  then show ?case by simp
next
  case (Suc n)
  then obtain st' where s: "xfer_step st0 = Inr st'" and r: "xfer_iter n st' = Inr st"
    by (auto split: sum.splits)
  from Suc.IH[OF r] s show ?case by (simp add: transfer_loop.simps[of st0])
qed

lemma xfer_iter_inv:
  "xfer_iter n st0 = Inr st \<Longrightarrow> xfer_inv q0 st0 \<Longrightarrow> xfer_inv q0 st"
proof (induction n arbitrary: st0)
  case 0
  then show ?case by simp
next
  case (Suc n)
  then obtain st' where s: "xfer_step st0 = Inr st'" and r: "xfer_iter n st' = Inr st"
    by (auto split: sum.splits)
  from Suc.prems(2) s have "xfer_inv q0 st'" by (rule xfer_inv_step)
  with Suc.IH[OF r] show ?case by simp
qed

lemma transfer_post:
  "xfer_post dst_queue (fst (transfer request dst_queue mangle))
     (snd (transfer request dst_queue mangle))"
  by (rule transfer_loop_post[OF xfer_inv_init]) (simp add: transfer_def)

lemma needs_dst_head_step:
  "needs_dst_head st \<Longrightarrow> \<exists>st'. xfer_step st = Inl (Returned Dropped, st')"
  by (auto simp: needs_dst_head_def xfer_step_def dst_phase_def next_avail_def
      split: sum.splits)

lemma needs_dst_head_dropped:
  assumes "needs_dst_head st"
  shows "fst (transfer_loop st) = Returned Dropped"
proof -
  from needs_dst_head_step[OF assms] obtain st' where
    "xfer_step st = Inl (Returned Dropped, st')" ..
  then show ?thesis by (simp add: transfer_loop.simps[of st])
qed

text \<open>
  C3. When \<open>transfer\<close> returns \<open>Delivered\<close>, the destination queue has seen
  exactly one more call of \<open>finish\<close>. Its entries \<open>es\<close> are the chains taken
  from the ring for this frame: at least one, in the order of the ring from
  the position the call started at, one entry each, and the queue has advanced
  by their number. The header is in the first of these chains and its
  \<open>num_buffers\<close> field has been set to their number, as has the counter
  \<open>num_merged\<close> (16-bit values, which the number of chains fits when the ring
  offers fewer than 65536). When the list of merged chains is empty, the call
  of \<open>finish\<close> is for the one chain taken, and \<open>num_buffers\<close> and
  \<open>num_merged\<close> are 1; otherwise the entries are the list of merged chains
  with the current chain appended, two or more.
\<close>

theorem transfer_delivered_finish_once:
  assumes "fst (transfer request dst_queue mangle) = Returned Delivered"
  shows "\<exists>es. es \<noteq> [] \<and>
              vq_finished (tr_dst_queue (snd (transfer request dst_queue mangle))) =
                vq_finished dst_queue @ [es] \<and>
              vq_avail (tr_dst_queue (snd (transfer request dst_queue mangle))) =
                vq_avail dst_queue \<and>
              vq_current_avail (tr_dst_queue (snd (transfer request dst_queue mangle))) =
                vq_current_avail dst_queue + length es \<and>
              vq_current_avail dst_queue + length es \<le> length (vq_avail dst_queue) \<and>
              map fst es =
                [vq_current_avail dst_queue ..< vq_current_avail dst_queue + length es] \<and>
              tr_dst_header (snd (transfer request dst_queue mangle)) = Some (fst (hd es)) \<and>
              fst (hd es) = vq_current_avail dst_queue \<and>
              tr_num_buffers (snd (transfer request dst_queue mangle)) =
                Some (of_nat (length es)) \<and>
              tr_num_merged (snd (transfer request dst_queue mangle)) = of_nat (length es) \<and>
              (length (vq_avail dst_queue) < 65536 \<longrightarrow>
                 unat (of_nat (length es) :: 16 word) = length es) \<and>
              (if tr_consumed (snd (transfer request dst_queue mangle)) = []
               then es = [(vq_current_avail dst_queue,
                           tr_total (snd (transfer request dst_queue mangle)))] \<and>
                    tr_num_buffers (snd (transfer request dst_queue mangle)) = Some 1 \<and>
                    tr_num_merged (snd (transfer request dst_queue mangle)) = 1
               else es = tr_consumed (snd (transfer request dst_queue mangle)) \<and>
                    2 \<le> length es)"
proof -
  let ?st = "snd (transfer request dst_queue mangle)"
  from transfer_post[of dst_queue request mangle] assms
  obtain es where fin: "vq_finished (tr_dst_queue ?st) = vq_finished dst_queue @ [es]"
    and ne: "es \<noteq> []"
    and heads: "map fst es = [vq_current_avail dst_queue ..< vq_current_avail dst_queue + length es]"
    and pos: "vq_current_avail (tr_dst_queue ?st) = vq_current_avail dst_queue + length es"
    and bound: "vq_current_avail (tr_dst_queue ?st) \<le> length (vq_avail dst_queue)"
    and nb: "tr_num_buffers ?st = Some (of_nat (length es))"
    and nm: "tr_num_merged ?st = of_nat (length es)"
    and av: "vq_avail (tr_dst_queue ?st) = vq_avail dst_queue"
    and es: "es = (if tr_consumed ?st = [] then [(vq_current_avail dst_queue, tr_total ?st)]
                   else tr_consumed ?st)"
    and many: "tr_consumed ?st \<noteq> [] \<longrightarrow> 2 \<le> length es"
    and hdr: "tr_dst_header ?st = Some (vq_current_avail dst_queue)"
    by (auto simp: xfer_post_def)
  have fits: "unat (of_nat (length es) :: 16 word) = length es"
    if "length (vq_avail dst_queue) < 65536"
  proof -
    have "length es < 2 ^ 16" using pos bound that by simp
    then show ?thesis by (simp add: unat_of_nat)
  qed
  have first: "fst (hd es) = vq_current_avail dst_queue"
  proof -
    from ne obtain e es' where c: "es = e # es'" by (cases es) auto
    then have "[vq_current_avail dst_queue ..< vq_current_avail dst_queue + Suc (length es')] =
        fst e # map fst es'"
      using heads by (simp del: upt_Suc)
    then show ?thesis unfolding upt_eq_Cons_conv using c by simp
  qed
  have bound': "vq_current_avail dst_queue + length es \<le> length (vq_avail dst_queue)"
    using pos bound by simp
  have single: "es = [(vq_current_avail dst_queue, tr_total ?st)] \<and>
      tr_num_buffers ?st = Some 1 \<and> tr_num_merged ?st = 1"
    if "tr_consumed ?st = []"
  proof -
    from es that have e1: "es = [(vq_current_avail dst_queue, tr_total ?st)]" by simp
    then have "length es = 1" by simp
    with nb nm e1 show ?thesis by simp
  qed
  have multi: "es = tr_consumed ?st \<and> 2 \<le> length es" if "tr_consumed ?st \<noteq> []"
    using es many that by simp
  have last: "if tr_consumed ?st = []
      then es = [(vq_current_avail dst_queue, tr_total ?st)] \<and>
           tr_num_buffers ?st = Some 1 \<and> tr_num_merged ?st = 1
      else es = tr_consumed ?st \<and> 2 \<le> length es"
  proof (cases "tr_consumed ?st = []")
    case True
    with single show ?thesis by simp
  next
    case False
    from multi[OF False] have "es = tr_consumed ?st" "2 \<le> length es" by blast+
    with False show ?thesis by auto
  qed
  have hdr': "tr_dst_header ?st = Some (fst (hd es))" using hdr first by simp
  show ?thesis
  proof (intro exI[of _ es] conjI impI)
    show "es \<noteq> []" by (fact ne)
    show "vq_finished (tr_dst_queue ?st) = vq_finished dst_queue @ [es]" by (fact fin)
    show "vq_avail (tr_dst_queue ?st) = vq_avail dst_queue" by (fact av)
    show "vq_current_avail (tr_dst_queue ?st) = vq_current_avail dst_queue + length es"
      by (fact pos)
    show "vq_current_avail dst_queue + length es \<le> length (vq_avail dst_queue)"
      by (fact bound')
    show "map fst es = [vq_current_avail dst_queue ..< vq_current_avail dst_queue + length es]"
      by (fact heads)
    show "tr_dst_header ?st = Some (fst (hd es))" by (fact hdr')
    show "fst (hd es) = vq_current_avail dst_queue" by (fact first)
    show "tr_num_buffers ?st = Some (of_nat (length es))" by (fact nb)
    show "tr_num_merged ?st = of_nat (length es)" by (fact nm)
    show "unat (of_nat (length es) :: 16 word) = length es"
      if "length (vq_avail dst_queue) < 65536" using that by (rule fits)
    show "if tr_consumed ?st = []
      then es = [(vq_current_avail dst_queue, tr_total ?st)] \<and>
           tr_num_buffers ?st = Some 1 \<and> tr_num_merged ?st = 1
      else es = tr_consumed ?st \<and> 2 \<le> length es" by (fact last)
  qed
qed

theorem transfer_delivered_finish_once_witness:
  "fst (transfer ex_request ex_rx_queue Mangle_none) = Returned Delivered \<and>
   vq_finished (tr_dst_queue (snd (transfer ex_request ex_rx_queue Mangle_none))) =
     [[(0, 20), (1, 3), (2, 6)]] \<and>
   tr_dst_header (snd (transfer ex_request ex_rx_queue Mangle_none)) = Some 0 \<and>
   tr_num_buffers (snd (transfer ex_request ex_rx_queue Mangle_none)) = Some 3 \<and>
   vq_current_avail (tr_dst_queue (snd (transfer ex_request ex_rx_queue Mangle_none))) = 3 \<and>
   fst (transfer ex_request ex_long_rx_queue Mangle_none) = Returned Delivered \<and>
   tr_consumed (snd (transfer ex_request ex_long_rx_queue Mangle_none)) = [] \<and>
   vq_finished (tr_dst_queue (snd (transfer ex_request ex_long_rx_queue Mangle_none))) =
     [[(0, 29)]] \<and>
   tr_num_buffers (snd (transfer ex_request ex_long_rx_queue Mangle_none)) = Some 1 \<and>
   tr_num_merged (snd (transfer ex_request ex_long_rx_queue Mangle_none)) = 1"
proof -
  let ?st = "snd (transfer ex_request ex_rx_queue Mangle_none)"
  let ?st1 = "snd (transfer ex_request ex_long_rx_queue Mangle_none)"
  have d: "fst (transfer ex_request ex_rx_queue Mangle_none) = Returned Delivered"
    by code_simp
  have f: "vq_finished (tr_dst_queue ?st) = [[(0, 20), (1, 3), (2, 6)]]"
    by code_simp
  have q: "vq_finished ex_rx_queue = []" "vq_current_avail ex_rx_queue = 0"
    by (simp_all add: ex_rx_queue_def)
  from transfer_delivered_finish_once[OF d] obtain es where
    fin: "vq_finished (tr_dst_queue ?st) = vq_finished ex_rx_queue @ [es]"
    and pos: "vq_current_avail (tr_dst_queue ?st) = vq_current_avail ex_rx_queue + length es"
    and hdr: "tr_dst_header ?st = Some (fst (hd es))"
    and nb: "tr_num_buffers ?st = Some (of_nat (length es))"
    by blast
  from fin f q have es: "es = [(0, 20), (1, 3), (2, 6)]" by simp
  have three: "tr_dst_header ?st = Some 0" "tr_num_buffers ?st = Some 3"
    "vq_current_avail (tr_dst_queue ?st) = 3"
    using hdr nb pos q unfolding es by simp_all
  have d1: "fst (transfer ex_request ex_long_rx_queue Mangle_none) = Returned Delivered"
    by code_simp
  have c1: "tr_consumed ?st1 = []" by code_simp
  have t1: "tr_total ?st1 = 29" by code_simp
  have q1: "vq_finished ex_long_rx_queue = []" "vq_current_avail ex_long_rx_queue = 0"
    by (simp_all add: ex_long_rx_queue_def ex_rx_queue_def)
  from transfer_delivered_finish_once[OF d1] obtain es1 where
    fin1: "vq_finished (tr_dst_queue ?st1) = vq_finished ex_long_rx_queue @ [es1]"
    and last1: "if tr_consumed ?st1 = []
      then es1 = [(vq_current_avail ex_long_rx_queue, tr_total ?st1)] \<and>
           tr_num_buffers ?st1 = Some 1 \<and> tr_num_merged ?st1 = 1
      else es1 = tr_consumed ?st1 \<and> 2 \<le> length es1"
    by blast
  from last1 c1 have one: "es1 = [(vq_current_avail ex_long_rx_queue, tr_total ?st1)]"
    "tr_num_buffers ?st1 = Some 1" "tr_num_merged ?st1 = 1"
    by simp_all
  have f1: "vq_finished (tr_dst_queue ?st1) = [[(0, 29)]]"
    using fin1 one(1) q1 t1 by simp
  show ?thesis
  proof (intro conjI)
    show "fst (transfer ex_request ex_rx_queue Mangle_none) = Returned Delivered" by (fact d)
    show "vq_finished (tr_dst_queue ?st) = [[(0, 20), (1, 3), (2, 6)]]" by (fact f)
    show "tr_dst_header ?st = Some 0" by (fact three(1))
    show "tr_num_buffers ?st = Some 3" by (fact three(2))
    show "vq_current_avail (tr_dst_queue ?st) = 3" by (fact three(3))
    show "fst (transfer ex_request ex_long_rx_queue Mangle_none) = Returned Delivered"
      by (fact d1)
    show "tr_consumed ?st1 = []" by (fact c1)
    show "vq_finished (tr_dst_queue ?st1) = [[(0, 29)]]" by (fact f1)
    show "tr_num_buffers ?st1 = Some 1" by (fact one(2))
    show "tr_num_merged ?st1 = 1" by (fact one(3))
  qed
qed

text \<open>
  C4. When some iteration of \<open>transfer\<close> cannot proceed because it needs a
  destination chain and the destination queue is not ready or has none
  available, the call returns \<open>Dropped\<close>; the chains consumed before, as many
  as there are entries in the list of merged chains, are given back: the queue
  is again the one the call was given, at its position before the transfer and
  with no call of \<open>finish\<close> added.
\<close>

theorem transfer_dropped_rewinds:
  assumes reach: "xfer_iter n (transfer_init request dst_queue mangle) = Inr st"
    and stuck: "needs_dst_head st"
  shows "fst (transfer request dst_queue mangle) = Returned Dropped \<and>
         vq_current_avail (tr_dst_queue st) =
           vq_current_avail dst_queue + length (tr_consumed st) + head_open st \<and>
         tr_dst_queue (snd (transfer request dst_queue mangle)) = dst_queue \<and>
         vq_current_avail (tr_dst_queue (snd (transfer request dst_queue mangle))) =
           vq_current_avail dst_queue \<and>
         vq_finished (tr_dst_queue (snd (transfer request dst_queue mangle))) =
           vq_finished dst_queue"
proof -
  have eq: "transfer request dst_queue mangle = transfer_loop st"
    unfolding transfer_def using reach by (rule xfer_iter_loop)
  have dropped: "fst (transfer request dst_queue mangle) = Returned Dropped"
    unfolding eq using stuck by (rule needs_dst_head_dropped)
  have "xfer_inv dst_queue st"
    using reach xfer_inv_init by (rule xfer_iter_inv)
  then have pos: "vq_current_avail (tr_dst_queue st) =
      vq_current_avail dst_queue + length (tr_consumed st) + head_open st"
    by (simp add: xfer_inv_def)
  have "tr_dst_queue (snd (transfer request dst_queue mangle)) = dst_queue"
    using transfer_post[of dst_queue request mangle] dropped by (simp add: xfer_post_def)
  with dropped pos show ?thesis by simp
qed

theorem transfer_dropped_rewinds_witness:
  "needs_dst_head
     (projr (xfer_iter (Suc (Suc 0)) (transfer_init ex_request ex_short_rx_queue Mangle_none))) \<and>
   length (tr_consumed
     (projr (xfer_iter (Suc (Suc 0)) (transfer_init ex_request ex_short_rx_queue Mangle_none)))) = 1 \<and>
   fst (transfer ex_request ex_short_rx_queue Mangle_none) = Returned Dropped \<and>
   tr_dst_queue (snd (transfer ex_request ex_short_rx_queue Mangle_none)) = ex_short_rx_queue"
proof -
  let ?st = "projr (xfer_iter (Suc (Suc 0)) (transfer_init ex_request ex_short_rx_queue Mangle_none))"
  have r: "xfer_iter (Suc (Suc 0)) (transfer_init ex_request ex_short_rx_queue Mangle_none) = Inr ?st"
    by code_simp
  have s: "needs_dst_head ?st" by code_simp
  have c: "length (tr_consumed ?st) = 1" by code_simp
  from transfer_dropped_rewinds[OF r s] s c show ?thesis by simp
qed

section \<open>Ingress policy\<close>

lemma get_request_head:
  "get_request queue = (Inr (Some ret), q) \<Longrightarrow>
     req_head ret = vq_current_avail queue \<and>
     q = queue\<lparr> vq_current_avail := vq_current_avail queue + 1 \<rparr>"
  by (auto simp: get_request_def next_avail_def Virtio_net_request_ctor_def Let_def
           split: if_splits prod.splits option.splits sum.splits desc.splits list.splits)

text \<open>
  \<open>set_vlan_trunk\<close> stores valid ids only, so the pseudo id of untagged
  traffic is not in the VLAN set of a trunk port as long as it is not a valid
  id itself.
\<close>

lemma set_vlan_trunk_loop_valid:
  "set_vlan_trunk_loop ids (f, s) = Some (f', s') \<Longrightarrow> v \<in> s' \<Longrightarrow> v \<in> s \<or> vlan_valid_id v"
  by (induction ids arbitrary: f s) (auto split: if_splits)

lemma set_vlan_trunk_native:
  "set_vlan_trunk K ids p = Some p' \<Longrightarrow> \<not> vlan_valid_id (VLAN_ID_NATIVE K) \<Longrightarrow>
     VLAN_ID_NATIVE K \<notin> vlan_ids p'"
  by (auto simp: set_vlan_trunk_def split: option.splits dest: set_vlan_trunk_loop_valid)

text \<open>
  What the test of the code decides. Let \<open>get_request\<close> pull a request \<open>ret\<close>
  from the transmit queue of port \<open>p\<close>, whose VLAN set does not hold the
  pseudo id of untagged traffic. If \<open>p\<close> is an access port and \<open>has_vlan\<close>
  finds a tag, or \<open>p\<close> is a trunk port and \<open>has_vlan\<close> finds none or the id
  read is not in the VLAN set of \<open>p\<close>, then \<open>get_tx_request\<close> returns no
  request, and the head the request was pulled from is finished with a length
  of zero: that call of \<open>finish\<close> is the one thing added to the transmit
  queue. \<open>has_vlan\<close> looks at what is left of the first buffer only.
\<close>

lemma get_tx_request_first_buffer:
  assumes pulled: "get_request (tx_q p) = (Inr (Some ret), q)"
    and policy: "(is_access K p \<and> has_vlan ret) \<or>
                 (is_trunk K p \<and> (\<not> has_vlan ret \<or> request_vlan_id K ret \<notin> vlan_ids p))"
    and cfg: "VLAN_ID_NATIVE K \<notin> vlan_ids p"
  shows "fst (get_tx_request K p) = Inr None \<and>
         snd (get_tx_request K p) = finish (vq_current_avail (tx_q p)) 0 q \<and>
         vq_finished (snd (get_tx_request K p)) =
           vq_finished (tx_q p) @ [[(vq_current_avail (tx_q p), 0)]]"
proof -
  from get_request_head[OF pulled]
  have h: "req_head ret = vq_current_avail (tx_q p)"
    and q: "q = (tx_q p)\<lparr> vq_current_avail := vq_current_avail (tx_q p) + 1 \<rparr>" by simp_all
  have untagged: "request_vlan_id K ret = VLAN_ID_NATIVE K" if "\<not> has_vlan ret"
    using that by (simp add: request_vlan_id_def)
  have "get_tx_request K p = (Inr None, request_finish ret q)"
    using policy cfg untagged pulled
    by (auto simp: get_tx_request_def is_access_def)
  then show ?thesis using h q by (simp add: request_finish_def finish_def)
qed

text \<open>
  C5 fails on the code. The access port of VLAN 10 has on its transmit queue a
  chain of two buffers whose frame is, byte for byte, the tagged frame of
  \<open>ex_tagged_chain\<close>: the first buffer ends after the two MAC addresses, the
  tag is in the second. With the frame in one buffer \<open>get_tx_request\<close> drops
  it and finishes its head with zero bytes. With the split chain \<open>has_vlan\<close>
  finds less than 14 bytes left in the first buffer and says no:
  \<open>get_tx_request\<close> returns the request and finishes nothing, and
  \<open>handle_tx_queue\<close> passes the tagged frame on to the access port 2, which
  receives its 18 bytes after the header of 12, and to the trunk port 3, for
  which \<open>handle_request\<close> chooses the mangle that adds a tag of VLAN 10.
\<close>

theorem split_tagged_frame_not_dropped:
  "is_access ex_consts ex_split_port \<and>
   spec_frame ex_split_chain = spec_frame ex_tagged_chain \<and>
   spec_frame_tagged (spec_frame ex_split_chain) \<and>
   get_tx_request ex_consts ex_access_port =
     (Inr None, ex_tx_queue\<lparr> vq_current_avail := 1, vq_finished := [[(0, 0)]] \<rparr>) \<and>
   get_tx_request ex_consts ex_split_port =
     (Inr (Some \<lparr> req_head = 0, req_proc = [Buf [0x81, 0, 0, 10, 8, 0]],
                   req_header = Some [0, 0, 0, 0, 0, 0, 0, 0, 0, 0, 0, 0],
                   req_pkt = [0xff, 0xff, 0xff, 0xff, 0xff, 0xff, 2, 0, 0, 0, 0, 1] \<rparr>),
      (tx_q ex_split_port)\<lparr> vq_current_avail := 1 \<rparr>) \<and>
   vq_finished (snd (get_tx_request ex_consts ex_split_port)) = [] \<and>
   snd (snd (handle_tx_queue ex_consts (\<lambda>r. False) 1 ex_split_switch)) =
     [Switched 2, Switched 3] \<and>
   vq_finished (rx_q (objs (fst (snd
       (handle_tx_queue ex_consts (\<lambda>r. False) 1 ex_split_switch))) 2)) = [[(0, 30)]] \<and>
   handle_request_mangle ex_consts (objs ex_split_switch 3) (objs ex_split_switch 1) =
     Mangle_add 10"
proof (intro conjI)
  show "is_access ex_consts ex_split_port" by code_simp
  show "spec_frame ex_split_chain = spec_frame ex_tagged_chain"
    by (simp add: spec_frame_def ex_split_chain_def ex_tagged_chain_def Hdr_size_def)
  show "spec_frame_tagged (spec_frame ex_split_chain)"
    by (simp add: spec_frame_def spec_frame_tagged_def ex_split_chain_def Hdr_size_def)
  show "get_tx_request ex_consts ex_access_port =
     (Inr None, ex_tx_queue\<lparr> vq_current_avail := 1, vq_finished := [[(0, 0)]] \<rparr>)"
    by code_simp
  show "get_tx_request ex_consts ex_split_port =
     (Inr (Some \<lparr> req_head = 0, req_proc = [Buf [0x81, 0, 0, 10, 8, 0]],
                   req_header = Some [0, 0, 0, 0, 0, 0, 0, 0, 0, 0, 0, 0],
                   req_pkt = [0xff, 0xff, 0xff, 0xff, 0xff, 0xff, 2, 0, 0, 0, 0, 1] \<rparr>),
      (tx_q ex_split_port)\<lparr> vq_current_avail := 1 \<rparr>)"
    by code_simp
  show "vq_finished (snd (get_tx_request ex_consts ex_split_port)) = []"
    by code_simp
  show "snd (snd (handle_tx_queue ex_consts (\<lambda>r. False) 1 ex_split_switch)) =
     [Switched 2, Switched 3]"
    by code_simp
  show "vq_finished (rx_q (objs (fst (snd
       (handle_tx_queue ex_consts (\<lambda>r. False) 1 ex_split_switch))) 2)) = [[(0, 30)]]"
    by code_simp
  show "handle_request_mangle ex_consts (objs ex_split_switch 3) (objs ex_split_switch 1) =
     Mangle_add 10"
    by code_simp
qed

section \<open>The MAC table\<close>

lemma map_of_insort:
  "map_of xs k = None \<Longrightarrow> map_of (insort_key fst (k, v) xs) = (map_of xs)(k \<mapsto> v)"
  by (induction xs) (auto simp: fun_eq_iff)

lemma map_of_erase: "map_of (erase k xs) = (map_of xs)(k := None)"
  by (induction xs) (auto simp: erase_def fun_eq_iff)

lemma mt_inv_init: "0 < Size \<Longrightarrow> mt_inv Size (Mac_table_init Size)"
  by (simp add: mt_inv_def Mac_table_init_def)

lemma distinct_insort_fst:
  "distinct (map fst xs) \<Longrightarrow> k \<notin> fst ` set xs \<Longrightarrow>
     distinct (map fst (insort_key fst (k, v) xs))"
  by (induction xs) (auto simp: set_insort_key)

lemma learn_present:
  "map_of (mac_table t) src = Some i \<Longrightarrow>
     learn Size src p t = t\<lparr> entries := (entries t)[i := (entries t ! i)\<lparr> entry_port := Some p \<rparr>] \<rparr>"
  by (simp add: learn_def emplace_def)

lemma learn_new:
  "map_of (mac_table t) src = None \<Longrightarrow>
     learn Size src p t =
       t\<lparr> mac_table :=
             (if entry_port (entries t ! rr_index t) \<noteq> None
              then erase (entry_addr (entries t ! rr_index t))
                     (insort_key fst (src, rr_index t) (mac_table t))
              else insort_key fst (src, rr_index t) (mac_table t)),
           entries := (entries t)[rr_index t := \<lparr> entry_port = Some p, entry_addr = src \<rparr>],
           rr_index := (rr_index t + 1) mod Size \<rparr>"
  by (simp add: learn_def emplace_def Let_def)

lemma mt_inv_old_indexed:
  assumes "mt_inv Size t" "entry_port (entries t ! rr_index t) \<noteq> None"
  shows "map_of (mac_table t) (entry_addr (entries t ! rr_index t)) = Some (rr_index t)"
  using assms by (auto simp: mt_inv_def)

lemma mt_inv_learn:
  assumes inv: "mt_inv Size t"
  shows "mt_inv Size (learn Size src p t)"
proof (cases "map_of (mac_table t) src")
  case (Some i)
  then have mem: "(src, i) \<in> set (mac_table t)" by (rule map_of_SomeD)
  with inv have i: "i < Size" "entry_addr (entries t ! i) = src"
    by (auto simp: mt_inv_def)
  show ?thesis
    unfolding learn_present[OF Some] using inv mem i
    by (auto simp: mt_inv_def nth_list_update)
next
  case None
  let ?r = "rr_index t"
  let ?old = "entries t ! ?r"
  from inv have S: "0 < Size" and len: "length (entries t) = Size" and r: "?r < Size"
    and srt: "sorted (map fst (mac_table t))" and dst: "distinct (map fst (mac_table t))"
    and K1: "\<And>k i. (k, i) \<in> set (mac_table t) \<Longrightarrow>
               i < Size \<and> entry_addr (entries t ! i) = k \<and> entry_port (entries t ! i) \<noteq> None"
    and K2: "\<And>i. i < Size \<Longrightarrow> entry_port (entries t ! i) \<noteq> None \<Longrightarrow>
               (entry_addr (entries t ! i), i) \<in> set (mac_table t)"
    by (auto simp: mt_inv_def)
  from None have new: "src \<notin> fst ` set (mac_table t)" by (simp add: map_of_eq_None_iff)
  have uniq: "i = j" if "(k, i) \<in> set (mac_table t)" "(k, j) \<in> set (mac_table t)" for k i j
    using dst that by (meson eq_key_imp_eq_value)
  let ?ins = "insort_key fst (src, ?r) (mac_table t)"
  have ins_srt: "sorted (map fst ?ins)" using srt by (simp add: sorted_insort_key)
  have ins_dst: "distinct (map fst ?ins)" using dst new by (rule distinct_insort_fst)
  have ins_set: "set ?ins = insert (src, ?r) (set (mac_table t))" by (simp add: set_insort_key)
  let ?a = "entry_addr ?old"
  let ?tbl' = "if entry_port ?old \<noteq> None then erase ?a ?ins else ?ins"
  let ?es' = "(entries t)[?r := \<lparr> entry_port = Some p, entry_addr = src \<rparr>]"
  have amem: "(?a, ?r) \<in> set (mac_table t)" if "entry_port ?old \<noteq> None"
    using K2[OF r that] .
  have ane: "?a \<noteq> src" if "entry_port ?old \<noteq> None"
    using amem[OF that] new by force
  have set': "set ?tbl' = insert (src, ?r)
      {e \<in> set (mac_table t). entry_port ?old \<noteq> None \<longrightarrow> fst e \<noteq> ?a}"
    using ane by (auto simp: erase_def ins_set)
  have srt': "sorted (map fst ?tbl')"
    using ins_srt by (simp add: erase_def sorted_filter)
  have dst': "distinct (map fst ?tbl')"
    using ins_dst by (simp add: erase_def distinct_map_filter)
  have k1: "snd ki < Size \<and> entry_addr (?es' ! snd ki) = fst ki \<and>
            entry_port (?es' ! snd ki) \<noteq> None" if "ki \<in> set ?tbl'" for ki
  proof (cases "ki = (src, ?r)")
    case True
    then show ?thesis using r len by simp
  next
    case False
    with that have mem: "(fst ki, snd ki) \<in> set (mac_table t)"
      and na: "entry_port ?old \<noteq> None \<longrightarrow> fst ki \<noteq> ?a"
      unfolding set' by auto
    from K1[OF mem] have f: "snd ki < Size" "entry_addr (entries t ! snd ki) = fst ki"
      "entry_port (entries t ! snd ki) \<noteq> None" by simp_all
    have "snd ki \<noteq> ?r" using f na by auto
    then show ?thesis using f by simp
  qed
  have k2: "(entry_addr (?es' ! i), i) \<in> set ?tbl'"
    if "i < Size" "entry_port (?es' ! i) \<noteq> None" for i
  proof (cases "i = ?r")
    case True
    then show ?thesis unfolding set' using r len by simp
  next
    case False
    then have same: "?es' ! i = entries t ! i" by simp
    with that have occ: "entry_port (entries t ! i) \<noteq> None" by simp
    have mem: "(entry_addr (entries t ! i), i) \<in> set (mac_table t)" using K2[OF that(1) occ] .
    have "entry_addr (entries t ! i) \<noteq> ?a" if "entry_port ?old \<noteq> None"
      using uniq[OF mem] amem[OF that] False by auto
    then show ?thesis unfolding set' same using mem by simp
  qed
  have L: "learn Size src p t = t\<lparr> mac_table := ?tbl', entries := ?es', rr_index := (?r + 1) mod Size \<rparr>"
    using learn_new[OF None] by simp
  show ?thesis
    unfolding L mt_inv_def using S len srt' dst' k1 k2 by simp
qed

lemma flush_loop_result:
  assumes "distinct (map snd xs)" "\<forall>ki \<in> set xs. snd ki < length es"
  shows "fst (flush_loop p xs es) = filter (\<lambda>ki. entry_port (es ! snd ki) \<noteq> Some p) xs \<and>
         length (snd (flush_loop p xs es)) = length es \<and>
         (\<forall>i < length es. snd (flush_loop p xs es) ! i =
            (if i \<in> snd ` set xs \<and> entry_port (es ! i) = Some p
             then \<lparr> entry_port = None, entry_addr = Addr_unknown \<rparr> else es ! i))"
  using assms
proof (induction xs arbitrary: es)
  case Nil
  then show ?case by simp
next
  case (Cons ki rest)
  let ?c = "\<lparr> entry_port = None, entry_addr = Addr_unknown \<rparr> :: 'a Entry"
  have d: "distinct (map snd rest)" and nin: "snd ki \<notin> snd ` set rest"
    and b: "\<forall>kj \<in> set rest. snd kj < length es" and bk: "snd ki < length es"
    using Cons.prems by auto
  show ?case
  proof (cases "entry_port (es ! snd ki) = Some p")
    case True
    let ?es1 = "es[snd ki := ?c]"
    have b1: "\<forall>kj \<in> set rest. snd kj < length ?es1" using b by simp
    note ih = Cons.IH[OF d b1, of ]
    have same: "?es1 ! snd kj = es ! snd kj" if "kj \<in> set rest" for kj
    proof -
      have "snd kj \<in> snd ` set rest" using that by (rule imageI)
      then have "snd kj \<noteq> snd ki" using nin by metis
      then show ?thesis by simp
    qed
    have f: "filter (\<lambda>kj. entry_port (?es1 ! snd kj) \<noteq> Some p) rest =
             filter (\<lambda>kj. entry_port (es ! snd kj) \<noteq> Some p) rest"
      by (rule filter_cong) (simp_all add: same)
    have e: "snd (flush_loop p rest ?es1) ! i =
            (if i \<in> snd ` set (ki # rest) \<and> entry_port (es ! i) = Some p then ?c else es ! i)"
      if "i < length es" for i
    proof (cases "i = snd ki")
      case True
      then have "i \<notin> snd ` set rest" using nin by simp
      then show ?thesis using ih that True \<open>entry_port (es ! snd ki) = Some p\<close> by simp
    next
      case False
      then show ?thesis using ih that by (simp add: nth_list_update)
    qed
    show ?thesis using True ih f e by simp
  next
    case False
    note ih = Cons.IH[OF d b]
    have e: "snd (flush_loop p rest es) ! i =
            (if i \<in> snd ` set (ki # rest) \<and> entry_port (es ! i) = Some p then ?c else es ! i)"
      if "i < length es" for i
      using ih that False by auto
    show ?thesis using False ih e by (simp add: Let_def)
  qed
qed

lemma mt_inv_flush:
  assumes inv: "mt_inv Size t"
  shows "mt_inv Size (flush p t)"
proof -
  let ?tbl = "mac_table t" and ?es = "entries t"
  let ?c = "\<lparr> entry_port = None, entry_addr = Addr_unknown \<rparr> :: 'a Entry"
  from inv have S: "0 < Size" and len: "length ?es = Size" and r: "rr_index t < Size"
    and srt: "sorted (map fst ?tbl)" and dst: "distinct (map fst ?tbl)"
    and K1: "\<And>ki. ki \<in> set ?tbl \<Longrightarrow>
               snd ki < Size \<and> entry_addr (?es ! snd ki) = fst ki \<and> entry_port (?es ! snd ki) \<noteq> None"
    and K2: "\<And>i. i < Size \<Longrightarrow> entry_port (?es ! i) \<noteq> None \<Longrightarrow>
               (entry_addr (?es ! i), i) \<in> set ?tbl"
    by (auto simp: mt_inv_def)
  have inj: "inj_on snd (set ?tbl)"
  proof (rule inj_onI)
    fix a b assume "a \<in> set ?tbl" "b \<in> set ?tbl" "snd a = snd b"
    then have "fst a = fst b" using K1[of a] K1[of b] by simp
    with \<open>snd a = snd b\<close> show "a = b" by (simp add: prod_eq_iff)
  qed
  have "distinct ?tbl" using dst by (rule distinct_map[THEN iffD1, THEN conjunct1])
  then have ds: "distinct (map snd ?tbl)" using inj by (simp add: distinct_map)
  have bnd: "\<forall>ki \<in> set ?tbl. snd ki < length ?es" using K1 len by auto
  note fl = flush_loop_result[OF ds bnd, of p]
  let ?tbl' = "fst (flush_loop p ?tbl ?es)" and ?es' = "snd (flush_loop p ?tbl ?es)"
  have T: "?tbl' = filter (\<lambda>ki. entry_port (?es ! snd ki) \<noteq> Some p) ?tbl" using fl by simp
  have L: "length ?es' = Size" using fl len by simp
  have E: "?es' ! i = (if i \<in> snd ` set ?tbl \<and> entry_port (?es ! i) = Some p then ?c else ?es ! i)"
    if "i < Size" for i using fl that len by simp
  have k1: "snd ki < Size \<and> entry_addr (?es' ! snd ki) = fst ki \<and> entry_port (?es' ! snd ki) \<noteq> None"
    if "ki \<in> set ?tbl'" for ki
  proof -
    from that have m: "ki \<in> set ?tbl" and np: "entry_port (?es ! snd ki) \<noteq> Some p"
      unfolding T by simp_all
    from K1[OF m] np show ?thesis by (simp add: E)
  qed
  have k2: "(entry_addr (?es' ! i), i) \<in> set ?tbl'" if "i < Size" "entry_port (?es' ! i) \<noteq> None" for i
  proof -
    have nc: "\<not> (i \<in> snd ` set ?tbl \<and> entry_port (?es ! i) = Some p)"
    proof
      assume "i \<in> snd ` set ?tbl \<and> entry_port (?es ! i) = Some p"
      then have "?es' ! i = ?c" using E[OF that(1)] by simp
      then show False using that(2) by simp
    qed
    then have same: "?es' ! i = ?es ! i" using E[OF that(1)] by (auto split: if_splits)
    with that have occ: "entry_port (?es ! i) \<noteq> None" by simp
    have m: "(entry_addr (?es ! i), i) \<in> set ?tbl" using K2[OF that(1) occ] .
    then have "i \<in> snd ` set ?tbl" by force
    with nc have "entry_port (?es ! i) \<noteq> Some p" by simp
    with m show ?thesis unfolding T same by simp
  qed
  have srt': "sorted (map fst ?tbl')" unfolding T using srt by (rule sorted_filter)
  have dst': "distinct (map fst ?tbl')" unfolding T using dst by (rule distinct_map_filter)
  show ?thesis
    unfolding mt_inv_def flush_def Let_def using S r L srt' dst' k1 k2 by simp
qed

lemma mod_eq_close:
  fixes S :: nat
  assumes "j < n" "n \<le> j + S" "j mod S = n mod S"
  shows "n = j + S"
proof -
  have "S dvd n - j"
    using assms(1,3) by (metis less_imp_le_nat mod_eq_dvd_iff_nat)
  moreover have "0 < n - j" using assms(1) by simp
  ultimately have "S \<le> n - j" by (rule_tac dvd_imp_le)
  with assms show ?thesis by simp
qed

lemma rr_state_init: "rr_state Size [] (Mac_table_init Size)"
  by (simp add: rr_state_def Mac_table_init_def)

lemma rr_state_learn:
  assumes S: "0 < Size" and st: "rr_state Size xs t"
    and new: "m \<notin> fst ` set xs" and dist: "distinct (map fst xs)"
  shows "rr_state Size (xs @ [(m, p)]) (learn Size m p t)"
proof -
  let ?n = "length xs"
  let ?r = "?n mod Size"
  let ?tbl = "mac_table t"
  let ?es = "entries t"
  from st have len: "length ?es = Size" and rr: "rr_index t = ?r"
    and recent: "\<And>j. j < ?n \<Longrightarrow> ?n \<le> j + Size \<Longrightarrow>
          map_of ?tbl (fst (xs ! j)) = Some (j mod Size) \<and>
          ?es ! (j mod Size) = \<lparr> entry_port = Some (snd (xs ! j)), entry_addr = fst (xs ! j) \<rparr>"
    and absent: "\<And>m'. m' \<notin> fst ` set (drop (?n - Size) xs) \<Longrightarrow> map_of ?tbl m' = None"
    and unused: "\<And>i. i < Size \<Longrightarrow> ?n \<le> i \<Longrightarrow> entry_port (?es ! i) = None"
    by (auto simp: rr_state_def)
  have rlt: "?r < Size" using S by simp
  have mnew: "map_of ?tbl m = None"
  proof -
    have "set (drop (?n - Size) xs) \<subseteq> set xs" by (rule set_drop_subset)
    then have "m \<notin> fst ` set (drop (?n - Size) xs)" using new by blast
    then show ?thesis by (rule absent)
  qed
  let ?ins = "insort_key fst (m, ?r) ?tbl"
  let ?old = "?es ! ?r"
  let ?tbl' = "if entry_port ?old \<noteq> None then erase (entry_addr ?old) ?ins else ?ins"
  let ?es' = "?es[?r := \<lparr> entry_port = Some p, entry_addr = m \<rparr>]"
  have L: "learn Size m p t = t\<lparr> mac_table := ?tbl', entries := ?es', rr_index := (?r + 1) mod Size \<rparr>"
    using mnew by (simp add: learn_def emplace_def rr Let_def)
  have old_small: "entry_port ?old = None" if "?n < Size"
    using unused[of ?r] that by simp
  have old_big: "?old = \<lparr> entry_port = Some (snd (xs ! (?n - Size))), entry_addr = fst (xs ! (?n - Size)) \<rparr>"
    if "Size \<le> ?n"
  proof -
    have "(?n - Size) mod Size = ?r" using that by (simp add: le_mod_geq)
    moreover have "?n - Size < ?n" "?n \<le> (?n - Size) + Size" using that S by auto
    ultimately show ?thesis using recent[of "?n - Size"] by simp
  qed
  have map': "map_of ?tbl' = (if Size \<le> ?n then ((map_of ?tbl)(m \<mapsto> ?r))(fst (xs ! (?n - Size)) := None)
                              else (map_of ?tbl)(m \<mapsto> ?r))"
  proof (cases "Size \<le> ?n")
    case True
    then show ?thesis using old_big mnew by (simp add: map_of_erase map_of_insort)
  next
    case False
    then show ?thesis using old_small mnew by (simp add: map_of_insort)
  qed
  have oldne: "fst (xs ! (?n - Size)) \<noteq> m" if "Size \<le> ?n"
  proof -
    have "?n - Size < ?n" using that S by simp
    then have "xs ! (?n - Size) \<in> set xs" by simp
    then show ?thesis using new by force
  qed
  have c3: "map_of ?tbl' (fst ((xs @ [(m, p)]) ! j)) = Some (j mod Size) \<and>
            ?es' ! (j mod Size) = \<lparr> entry_port = Some (snd ((xs @ [(m, p)]) ! j)),
                                     entry_addr = fst ((xs @ [(m, p)]) ! j) \<rparr>"
    if j: "j < Suc ?n" and jr: "Suc ?n \<le> j + Size" for j
  proof (cases "j = ?n")
    case True
    then show ?thesis using map' oldne rlt len by (auto simp: nth_append)
  next
    case False
    with j have jl: "j < ?n" by simp
    have jr': "?n \<le> j + Size" using jr by simp
    have ne_m: "fst (xs ! j) \<noteq> m" using jl new by force
    have ne_old: "fst (xs ! j) \<noteq> fst (xs ! (?n - Size))" if "Size \<le> ?n"
    proof -
      have "j \<noteq> ?n - Size" using jr that by simp
      moreover have "?n - Size < ?n" using that S by simp
      ultimately show ?thesis using dist jl
        by (metis distinct_conv_nth length_map nth_map)
    qed
    have ne_r: "j mod Size \<noteq> ?r"
    proof
      assume "j mod Size = ?r"
      then have "?n = j + Size" using mod_eq_close[OF jl jr'] by simp
      then show False using jr by simp
    qed
    from recent[OF jl jr'] show ?thesis
      using map' ne_m ne_old ne_r jl by (simp add: nth_append)
  qed
  have c4: "map_of ?tbl' m' = None"
    if m': "m' \<notin> fst ` set (drop (Suc ?n - Size) (xs @ [(m, p)]))" for m'
  proof -
    have le: "Suc ?n - Size \<le> ?n" using S by simp
    have m'ne: "m' \<noteq> m" using m' le by auto
    have notin: "m' \<notin> fst ` set (drop (Suc ?n - Size) xs)" using m' le by auto
    show ?thesis
    proof (cases "Size \<le> ?n")
      case True
      have eq: "drop (?n - Size) xs = xs ! (?n - Size) # drop (Suc ?n - Size) xs"
      proof -
        have "?n - Size < ?n" using True S by simp
        then have "drop (?n - Size) xs = xs ! (?n - Size) # drop (Suc (?n - Size)) xs"
          by (simp add: Cons_nth_drop_Suc)
        moreover have "Suc (?n - Size) = Suc ?n - Size" using True by simp
        ultimately show ?thesis by simp
      qed
      show ?thesis
      proof (cases "m' = fst (xs ! (?n - Size))")
        case True
        then show ?thesis using map' \<open>Size \<le> ?n\<close> by simp
      next
        case False
        with notin eq have "m' \<notin> fst ` set (drop (?n - Size) xs)" by simp
        from absent[OF this] show ?thesis using map' m'ne by simp
      qed
    next
      case False
      then have "Suc ?n - Size = 0" "?n - Size = 0" by simp_all
      with notin have "m' \<notin> fst ` set (drop (?n - Size) xs)" by simp
      from absent[OF this] show ?thesis using map' m'ne False by simp
    qed
  qed
  have c5: "entry_port (?es' ! i) = None" if "i < Size" "Suc ?n \<le> i" for i
  proof -
    have "?r \<le> ?n" by (rule mod_less_eq_dividend)
    then have "i \<noteq> ?r" using that by simp
    then show ?thesis using unused[of i] that by simp
  qed
  have c2: "(?r + 1) mod Size = Suc ?n mod Size" by (simp add: mod_Suc_eq)
  show ?thesis
    unfolding rr_state_def L using len c2 c3 c4 c5 by simp
qed

lemma rr_state_learn_all:
  "0 < Size \<Longrightarrow> distinct (map fst xs) \<Longrightarrow>
     rr_state Size xs (learn_all Size xs (Mac_table_init Size))"
proof (induction xs rule: rev_induct)
  case Nil
  then show ?case by (simp add: learn_all_def rr_state_init)
next
  case (snoc x xs)
  then have "rr_state Size xs (learn_all Size xs (Mac_table_init Size))" by simp
  moreover have "fst x \<notin> fst ` set xs" using snoc.prems(2) by simp
  ultimately have "rr_state Size (xs @ [(fst x, snd x)])
      (learn Size (fst x) (snd x) (learn_all Size xs (Mac_table_init Size)))"
    using snoc.prems by (intro rr_state_learn) simp_all
  then show ?case by (simp add: learn_all_def)
qed

text \<open>
  C8. Start from the empty table of capacity \<open>Size\<close> and learn \<open>Size + k\<close>
  pairwise distinct addresses, \<open>xs\<close> in the order learned. Then \<open>lookup\<close>
  returns none for each of the first \<open>k\<close> addresses and the port learned for
  each of the last \<open>Size\<close>. (The statement holds for \<open>k = 0\<close> as well.)
\<close>

theorem round_robin_eviction:
  assumes S: "0 < Size" and dist: "distinct (map fst xs)" and len: "length xs = Size + k"
  shows "(\<forall>j. j < k \<longrightarrow>
            lookup (learn_all Size xs (Mac_table_init Size)) (fst (xs ! j)) = None) \<and>
         (\<forall>j. k \<le> j \<and> j < Size + k \<longrightarrow>
            lookup (learn_all Size xs (Mac_table_init Size)) (fst (xs ! j)) = Some (snd (xs ! j)))"
proof -
  let ?t = "learn_all Size xs (Mac_table_init Size)"
  have st: "rr_state Size xs ?t" using S dist by (rule rr_state_learn_all)
  have old: "lookup ?t (fst (xs ! j)) = None" if "j < k" for j
  proof -
    have "fst (xs ! j) \<notin> fst ` set (drop k xs)"
    proof
      assume "fst (xs ! j) \<in> fst ` set (drop k xs)"
      then obtain i where i: "i < length (drop k xs)" "fst (drop k xs ! i) = fst (xs ! j)"
        by (auto simp: in_set_conv_nth)
      then have "k + i < length xs" "fst (xs ! (k + i)) = fst (xs ! j)" by simp_all
      moreover have "j < length xs" "j \<noteq> k + i" using that len by simp_all
      ultimately show False using dist
        by (metis distinct_conv_nth length_map nth_map)
    qed
    then have "map_of (mac_table ?t) (fst (xs ! j)) = None"
      using st len by (simp add: rr_state_def)
    then show ?thesis by (simp add: lookup_def)
  qed
  have recent: "lookup ?t (fst (xs ! j)) = Some (snd (xs ! j))" if "k \<le> j" "j < Size + k" for j
  proof -
    have "j < length xs" "length xs \<le> j + Size" using that len by simp_all
    then have "map_of (mac_table ?t) (fst (xs ! j)) = Some (j mod Size) \<and>
               entries ?t ! (j mod Size) =
                 \<lparr> entry_port = Some (snd (xs ! j)), entry_addr = fst (xs ! j) \<rparr>"
      using st by (simp add: rr_state_def)
    then show ?thesis by (simp add: lookup_def)
  qed
  from old recent show ?thesis by blast
qed

text \<open>
  C2. On a table that satisfies its representation invariant, \<open>learn\<close> does
  what the specification says, step for step (\<open>learn_spec\<close>). If the address
  is in the index, pointing to slot \<open>i\<close>, the index and the cursor stay as
  they are and only the port of slot \<open>i\<close> changes. If the address is new,
  the address of the slot at the cursor leaves the index when that slot is
  occupied, the slot becomes the new pair, the index maps the new address to
  the slot, and the cursor advances by one modulo \<open>Size\<close>. In both cases
  \<open>lookup\<close> then returns the port learned.
\<close>

theorem learn_refines_spec:
  assumes inv: "mt_inv Size t"
  shows "learn Size mac p t = learn_spec Size mac p t \<and>
         (\<forall>i. map_of (mac_table t) mac = Some i \<longrightarrow>
            mac_table (learn Size mac p t) = mac_table t \<and>
            rr_index (learn Size mac p t) = rr_index t \<and>
            entries (learn Size mac p t) =
              (entries t)[i := (entries t ! i)\<lparr> entry_port := Some p \<rparr>]) \<and>
         (map_of (mac_table t) mac = None \<longrightarrow>
            rr_index (learn Size mac p t) = (rr_index t + 1) mod Size \<and>
            entries (learn Size mac p t) =
              (entries t)[rr_index t := \<lparr> entry_port = Some p, entry_addr = mac \<rparr>] \<and>
            map_of (mac_table (learn Size mac p t)) =
              (if entry_port (entries t ! rr_index t) \<noteq> None
               then (map_of (mac_table t))(entry_addr (entries t ! rr_index t) := None)
               else map_of (mac_table t))(mac \<mapsto> rr_index t)) \<and>
         lookup (learn Size mac p t) mac = Some p"
proof (cases "map_of (mac_table t) mac")
  case (Some i)
  then have mem: "(mac, i) \<in> set (mac_table t)" by (rule map_of_SomeD)
  with inv have i: "i < length (entries t)" by (auto simp: mt_inv_def)
  have eq: "learn Size mac p t = learn_spec Size mac p t"
    using Some by (simp add: learn_present learn_spec_def)
  have "lookup (learn Size mac p t) mac = Some p"
    using Some i by (simp add: learn_present lookup_def)
  then show ?thesis using Some eq by (simp add: learn_present)
next
  case None
  let ?r = "rr_index t"
  let ?old = "entries t ! ?r"
  let ?a = "entry_addr ?old"
  from inv have r: "?r < length (entries t)" and srt: "sorted (map fst (mac_table t))"
    by (auto simp: mt_inv_def)
  have ane: "?a \<noteq> mac" if "entry_port ?old \<noteq> None"
    using mt_inv_old_indexed[OF inv that] None by auto
  have swap: "erase ?a (insort_key fst (mac, ?r) (mac_table t)) =
              insort_key fst (mac, ?r) (filter (\<lambda>e. fst e \<noteq> ?a) (mac_table t))"
    if "entry_port ?old \<noteq> None"
    unfolding erase_def using srt ane[OF that] by (simp add: filter_insort)
  have eq: "learn Size mac p t = learn_spec Size mac p t"
    using None swap by (cases t) (simp add: learn_new learn_spec_def Let_def)
  have idx: "map_of (mac_table (learn Size mac p t)) =
      (if entry_port ?old \<noteq> None then (map_of (mac_table t))(?a := None)
       else map_of (mac_table t))(mac \<mapsto> ?r)"
    unfolding learn_new[OF None] using None ane
    by (auto simp: map_of_erase map_of_insort)
  have lk: "lookup (learn Size mac p t) mac = Some p"
    unfolding lookup_def idx using r by (simp add: learn_new[OF None])
  have rr: "rr_index (learn Size mac p t) = (?r + 1) mod Size"
    and es: "entries (learn Size mac p t) =
               (entries t)[?r := \<lparr> entry_port = Some p, entry_addr = mac \<rparr>]"
    by (simp_all add: learn_new[OF None])
  have present: "\<forall>i. map_of (mac_table t) mac = Some i \<longrightarrow>
            mac_table (learn Size mac p t) = mac_table t \<and>
            rr_index (learn Size mac p t) = rr_index t \<and>
            entries (learn Size mac p t) =
              (entries t)[i := (entries t ! i)\<lparr> entry_port := Some p \<rparr>]"
    using None by simp
  show ?thesis
  proof (intro conjI impI)
    show "learn Size mac p t = learn_spec Size mac p t" by (fact eq)
    show "\<forall>i. map_of (mac_table t) mac = Some i \<longrightarrow>
            mac_table (learn Size mac p t) = mac_table t \<and>
            rr_index (learn Size mac p t) = rr_index t \<and>
            entries (learn Size mac p t) =
              (entries t)[i := (entries t ! i)\<lparr> entry_port := Some p \<rparr>]"
      by (fact present)
    show "rr_index (learn Size mac p t) = (?r + 1) mod Size" by (fact rr)
    show "entries (learn Size mac p t) =
            (entries t)[?r := \<lparr> entry_port = Some p, entry_addr = mac \<rparr>]" by (fact es)
    show "map_of (mac_table (learn Size mac p t)) =
      (if entry_port ?old \<noteq> None then (map_of (mac_table t))(?a := None)
       else map_of (mac_table t))(mac \<mapsto> ?r)" by (fact idx)
    show "lookup (learn Size mac p t) mac = Some p" by (fact lk)
  qed
qed

theorem learn_refines_spec_witness:
  "mt_inv 2 (learn 2 ex_mac1 (1::nat) (Mac_table_init 2)) \<and>
   rr_index (learn 2 ex_mac1 5 (learn 2 ex_mac1 (1::nat) (Mac_table_init 2))) = 1 \<and>
   lookup (learn 2 ex_mac1 5 (learn 2 ex_mac1 (1::nat) (Mac_table_init 2))) ex_mac1 = Some 5 \<and>
   rr_index (learn 2 ex_mac2 2 (learn 2 ex_mac1 (1::nat) (Mac_table_init 2))) = 0 \<and>
   lookup (learn 2 ex_mac2 2 (learn 2 ex_mac1 (1::nat) (Mac_table_init 2))) ex_mac2 = Some 2"
proof -
  let ?t = "learn 2 ex_mac1 (1::nat) (Mac_table_init 2)"
  have inv: "mt_inv 2 ?t" by (intro mt_inv_learn mt_inv_init) simp
  have present: "map_of (mac_table ?t) ex_mac1 = Some 0"
    by (simp add: learn_def emplace_def Mac_table_init_def)
  have new: "map_of (mac_table ?t) ex_mac2 = None"
    by (simp add: learn_def emplace_def Mac_table_init_def ex_mac1_def ex_mac2_def)
  have rr: "rr_index ?t = 1"
    by (simp add: learn_def emplace_def Mac_table_init_def)
  note a = learn_refines_spec[OF inv, of ex_mac1 5, THEN conjunct2]
  note b = learn_refines_spec[OF inv, of ex_mac2 2, THEN conjunct2]
  from a b inv present new rr show ?thesis by simp
qed

theorem round_robin_eviction_witness:
  "lookup (learn_all 2 ex_learned (Mac_table_init 2)) ex_mac1 = None \<and>
   lookup (learn_all 2 ex_learned (Mac_table_init 2)) ex_mac2 = Some 2 \<and>
   lookup (learn_all 2 ex_learned (Mac_table_init 2)) ex_mac3 = Some 3"
proof -
  have d: "distinct (map fst ex_learned)"
    by (simp add: ex_learned_def ex_mac1_def ex_mac2_def ex_mac3_def)
  have l: "length ex_learned = 2 + 1" by (simp add: ex_learned_def)
  have S: "0 < (2::nat)" by simp
  from round_robin_eviction[OF S d l]
  have old: "\<And>j. j < 1 \<Longrightarrow>
          lookup (learn_all 2 ex_learned (Mac_table_init 2)) (fst (ex_learned ! j)) = None"
    and recent: "\<And>j. 1 \<le> j \<Longrightarrow> j < 3 \<Longrightarrow>
          lookup (learn_all 2 ex_learned (Mac_table_init 2)) (fst (ex_learned ! j)) =
            Some (snd (ex_learned ! j))"
    by simp_all
  from old[of 0] recent[of 1] recent[of 2] show ?thesis
    by (simp add: ex_learned_def)
qed

section \<open>Forwarding\<close>

lemma handle_request_monitor:
  "sw_monitor (snd (handle_request K this src_port request sw)) = sw_monitor sw"
  by (simp add: handle_request_def Let_def split: outcome.splits)

lemma deliver_ok:
  "deliver K target src_port request vlan sw = (e, sw', cs) \<Longrightarrow>
     sw_monitor sw' = sw_monitor sw \<and> (\<forall>c \<in> set cs. c = Switched target \<and> target \<noteq> src_port)"
  using handle_request_monitor[of K target src_port request sw]
  by (auto simp: deliver_def split: if_splits prod.splits)

lemma flood_loop_ok:
  "flood_loop K src_port request vlan idx sw = (e, sw', cs) \<Longrightarrow>
     sw_monitor sw' = sw_monitor sw \<and> (\<forall>c \<in> set cs. \<exists>t. c = Switched t \<and> t \<noteq> src_port)"
proof (induction K src_port request vlan idx sw arbitrary: e sw' cs rule: flood_loop.induct)
  case (1 K src_port request vlan idx sw)
  show ?case
  proof (cases "idx < max_used sw")
    case False
    then show ?thesis using "1.prems" by (simp add: flood_loop.simps[of K src_port request vlan idx sw])
  next
    case lt: True
    show ?thesis
    proof (cases "sw_ports sw ! idx")
      case None
      then show ?thesis using "1.prems" lt
        by (simp add: flood_loop.simps[of K src_port request vlan idx sw])
    next
      case (Some target)
      obtain e1 sw1 cs1 where d: "deliver K target src_port request vlan sw = (e1, sw1, cs1)"
        by (cases "deliver K target src_port request vlan sw") auto
      note dk = deliver_ok[OF d]
      show ?thesis
      proof (cases e1)
        case (Some s)
        then have "e = e1" "sw' = sw1" "cs = cs1" using "1.prems" lt \<open>sw_ports sw ! idx = Some target\<close> d
          by (simp_all add: flood_loop.simps[of K src_port request vlan idx sw])
        then show ?thesis using dk by auto
      next
        case None
        obtain e2 sw2 cs2 where
          f: "flood_loop K src_port request vlan (idx + 1) sw1 = (e2, sw2, cs2)"
          by (cases "flood_loop K src_port request vlan (idx + 1) sw1") auto
        have res: "e = e2" "sw' = sw2" "cs = cs1 @ cs2"
          using "1.prems" lt \<open>sw_ports sw ! idx = Some target\<close> d None f
          by (simp_all add: flood_loop.simps[of K src_port request vlan idx sw])
        have ih: "sw_monitor sw2 = sw_monitor sw1 \<and> (\<forall>c \<in> set cs2. \<exists>t. c = Switched t \<and> t \<noteq> src_port)"
          using "1.IH"[OF lt \<open>sw_ports sw ! idx = Some target\<close> _ _ _ f] d None by simp
        show ?thesis using res ih dk by auto
      qed
    qed
  qed
qed

lemma mirror_ok:
  "mirror K filt src_port request sw = (e, sw', cs) \<Longrightarrow>
     (\<forall>c \<in> set cs. \<exists>m. c = Mirrored m \<and> sw_monitor sw = Some m)"
  by (auto simp: mirror_def split: option.splits if_splits prod.splits)

lemma and_then_calls:
  assumes "and_then r f = (e, sw', cs)"
  shows "\<exists>e1 sw1 cs1. r = (e1, sw1, cs1) \<and>
           (cs = cs1 \<or> (\<exists>e2 sw2 cs2. f sw1 = (e2, sw2, cs2) \<and> cs = cs1 @ cs2))"
  using assms by (auto simp: and_then_def split: prod.splits option.splits)

lemma forward_ok:
  assumes "forward K filt src_port request vlan sw = (e, sw', cs)"
  shows "\<forall>c \<in> set cs. (\<exists>t. c = Switched t \<and> t \<noteq> src_port) \<or>
                       (\<exists>m. c = Mirrored m \<and> sw_monitor sw = Some m)"
proof -
  have flood: "\<forall>c \<in> set cs'. (\<exists>t. c = Switched t \<and> t \<noteq> src_port) \<or>
                       (\<exists>m. c = Mirrored m \<and> sw_monitor sw = Some m)"
    if "and_then (flood_loop K src_port request vlan 0 sw) (mirror K filt src_port request) = (e', s', cs')"
    for e' s' cs'
  proof -
    from and_then_calls[OF that] obtain e1 sw1 cs1 where
      f: "flood_loop K src_port request vlan 0 sw = (e1, sw1, cs1)"
      and c: "cs' = cs1 \<or> (\<exists>e2 sw2 cs2. mirror K filt src_port request sw1 = (e2, sw2, cs2) \<and> cs' = cs1 @ cs2)"
      by blast
    from flood_loop_ok[OF f] c show ?thesis by (fastforce dest!: mirror_ok)
  qed
  have uni: "\<forall>c \<in> set cs'. (\<exists>t. c = Switched t \<and> t \<noteq> src_port) \<or>
                       (\<exists>m. c = Mirrored m \<and> sw_monitor sw = Some m)"
    if "and_then (deliver K target src_port request vlan sw) (mirror K filt src_port request) = (e', s', cs')"
    for e' s' cs' target
  proof -
    from and_then_calls[OF that] obtain e1 sw1 cs1 where
      f: "deliver K target src_port request vlan sw = (e1, sw1, cs1)"
      and c: "cs' = cs1 \<or> (\<exists>e2 sw2 cs2. mirror K filt src_port request sw1 = (e2, sw2, cs2) \<and> cs' = cs1 @ cs2)"
      by blast
    from deliver_ok[OF f] c show ?thesis by (fastforce dest!: mirror_ok)
  qed
  show ?thesis
    using assms flood uni
    by (auto simp: forward_def Let_def split: if_splits option.splits)
qed

text \<open>
  C7. Among the calls of \<open>handle_request\<close> that \<open>handle_tx_queue\<close> makes for
  a frame from the port \<open>src_port\<close>, none made by the unicast path or the
  flood loop is on \<open>src_port\<close>, whatever the MAC table resolves the
  destination to. The copy for the monitor is the one call made without that
  test; it is not on \<open>src_port\<close> either unless \<open>src_port\<close> is the monitor port
  itself.
\<close>

theorem no_delivery_to_source:
  "Switched src_port \<notin> set (snd (snd (handle_tx_queue K filt src_port sw))) \<and>
   (sw_monitor sw \<noteq> Some src_port \<longrightarrow>
      Mirrored src_port \<notin> set (snd (snd (handle_tx_queue K filt src_port sw))))"
proof (cases "get_tx_request K (objs sw src_port)")
  case (Pair r q)
  show ?thesis
  proof (cases r)
    case (Inl e)
    then show ?thesis using Pair by (simp add: handle_tx_queue_def)
  next
    case (Inr ro)
    show ?thesis
    proof (cases ro)
      case None
      then show ?thesis using Pair Inr by (simp add: handle_tx_queue_def)
    next
      case (Some request)
      let ?sw2 = "(set_tx_q src_port q sw)\<lparr> sw_mac_table :=
          learn Mac_table_Size (src_mac request) src_port (sw_mac_table (set_tx_q src_port q sw)) \<rparr>"
      let ?vlan = "if has_vlan request then request_vlan_id K request
                   else get_vlan (objs ?sw2 src_port)"
      obtain e sw3 cs where f: "forward K filt src_port request ?vlan ?sw2 = (e, sw3, cs)"
        by (cases "forward K filt src_port request ?vlan ?sw2") auto
      have cs: "snd (snd (handle_tx_queue K filt src_port sw)) = cs"
        using Pair Inr Some f by (simp add: handle_tx_queue_def Let_def)
      have mon: "sw_monitor ?sw2 = sw_monitor sw" by (simp add: set_tx_q_def)
      from forward_ok[OF f] mon show ?thesis unfolding cs by auto
    qed
  qed
qed


theorem no_delivery_to_source_witness:
  "sw_monitor ex_switch \<noteq> Some 1 \<and>
   snd (snd (handle_tx_queue ex_consts (\<lambda>r. False) 1 ex_switch)) = [Switched 2, Switched 3] \<and>
   Switched 1 \<notin> set (snd (snd (handle_tx_queue ex_consts (\<lambda>r. False) 1 ex_switch))) \<and>
   Mirrored 1 \<notin> set (snd (snd (handle_tx_queue ex_consts (\<lambda>r. False) 1 ex_switch)))"
proof -
  have m: "sw_monitor ex_switch \<noteq> Some 1" by code_simp
  have c: "snd (snd (handle_tx_queue ex_consts (\<lambda>r. False) 1 ex_switch)) =
             [Switched 2, Switched 3]" by code_simp
  from no_delivery_to_source[of 1 ex_consts "\<lambda>r. False" ex_switch] m c show ?thesis by simp
qed

lemma set_tx_q_simps:
  "sw_monitor (set_tx_q p q sw) = sw_monitor sw"
  "sw_mac_table (set_tx_q p q sw) = sw_mac_table sw"
  "sw_ports (set_tx_q p q sw) = sw_ports sw"
  "max_used (set_tx_q p q sw) = max_used sw"
  "rx_q (objs (set_tx_q p q sw) t) = rx_q (objs sw t)"
  "match_vlan (objs (set_tx_q p q sw) t) v = match_vlan (objs sw t) v"
  "get_vlan (objs (set_tx_q p q sw) t) = get_vlan (objs sw t)"
  "tx_q (objs (set_tx_q p q sw) p) = q"
  by (simp_all add: set_tx_q_def match_vlan_def get_vlan_def)

text \<open>
  C10. Let \<open>handle_tx_queue\<close> pull the frame \<open>request\<close> from port \<open>src_port\<close>,
  not a broadcast, and let the MAC table, after the source address has been
  learned, resolve the destination address to the port \<open>target\<close>. If
  \<open>target\<close> is the source port, or does not match the effective VLAN of the
  frame, the function returns with the source address learned and without a
  single call of \<open>handle_request\<close>: nothing is delivered, no receive queue
  changes, and no copy goes to the monitor port, whatever the monitor port and
  the filter hook are. The request is destroyed, which finishes its head.
\<close>

theorem hit_without_delivery:
  assumes pulled: "fst (get_tx_request K (objs sw src_port)) = Inr (Some request)"
    and uni: "\<not> is_broadcast (dst_mac request)"
    and hit: "lookup (learn Mac_table_Size (src_mac request) src_port (sw_mac_table sw))
                (dst_mac request) = Some target"
    and rej: "target = src_port \<or>
              \<not> match_vlan (objs sw target)
                  (if has_vlan request then request_vlan_id K request
                   else get_vlan (objs sw src_port))"
  shows "fst (handle_tx_queue K filt src_port sw) = None \<and>
         snd (snd (handle_tx_queue K filt src_port sw)) = [] \<and>
         sw_mac_table (fst (snd (handle_tx_queue K filt src_port sw))) =
           learn Mac_table_Size (src_mac request) src_port (sw_mac_table sw) \<and>
         (\<forall>t. rx_q (objs (fst (snd (handle_tx_queue K filt src_port sw))) t) =
                rx_q (objs sw t)) \<and>
         tx_q (objs (fst (snd (handle_tx_queue K filt src_port sw))) src_port) =
           request_finish request (snd (get_tx_request K (objs sw src_port)))"
proof -
  obtain q where g: "get_tx_request K (objs sw src_port) = (Inr (Some request), q)"
    using pulled by (cases "get_tx_request K (objs sw src_port)") auto
  then have qs: "snd (get_tx_request K (objs sw src_port)) = q" by simp
  let ?sw1 = "set_tx_q src_port q sw"
  let ?sw2 = "?sw1\<lparr> sw_mac_table :=
      learn Mac_table_Size (src_mac request) src_port (sw_mac_table ?sw1) \<rparr>"
  let ?vlan = "if has_vlan request then request_vlan_id K request
               else get_vlan (objs ?sw2 src_port)"
  have v: "?vlan = (if has_vlan request then request_vlan_id K request
                    else get_vlan (objs sw src_port))"
    by (simp add: set_tx_q_simps)
  have m: "match_vlan (objs ?sw2 target) ?vlan =
           match_vlan (objs sw target) (if has_vlan request then request_vlan_id K request
                    else get_vlan (objs sw src_port))"
    unfolding v by (simp add: set_tx_q_simps)
  have l: "lookup (sw_mac_table ?sw2) (dst_mac request) = Some target"
    using hit by (simp add: set_tx_q_simps)
  have f: "forward K filt src_port request ?vlan ?sw2 = (None, ?sw2, [])"
    using uni l rej m by (auto simp: forward_def Let_def)
  have h: "handle_tx_queue K filt src_port sw =
      (None, set_tx_q src_port (request_finish request (tx_q (objs ?sw2 src_port))) ?sw2, [])"
    using g f by (simp add: handle_tx_queue_def Let_def)
  show ?thesis
    unfolding h qs by (simp add: set_tx_q_simps)
qed

theorem hit_without_delivery_witness:
  "sw_monitor ex_unicast_switch = Some 4 \<and>
   fst (handle_tx_queue ex_consts (\<lambda>r. False) 5 ex_unicast_switch) = None \<and>
   snd (snd (handle_tx_queue ex_consts (\<lambda>r. False) 5 ex_unicast_switch)) = []"
proof -
  have mon: "sw_monitor ex_unicast_switch = Some 4" by code_simp
  have pulled: "fst (get_tx_request ex_consts (objs ex_unicast_switch 5)) =
                  Inr (Some ex_unicast_request)" by code_simp
  have uni: "\<not> is_broadcast (dst_mac ex_unicast_request)" by code_simp
  have hit: "lookup (learn Mac_table_Size (src_mac ex_unicast_request) 5
                       (sw_mac_table ex_unicast_switch))
               (dst_mac ex_unicast_request) = Some 5" by code_simp
  have rej: "5 = (5::nat) \<or>
             \<not> match_vlan (objs ex_unicast_switch 5)
                 (if has_vlan ex_unicast_request
                  then request_vlan_id ex_consts ex_unicast_request
                  else get_vlan (objs ex_unicast_switch 5))" by simp
  from hit_without_delivery[OF pulled uni hit rej, of "\<lambda>r. False"] mon
  show ?thesis by simp
qed

lemma cfg_eq_refl: "cfg_eq sw sw"
  by (simp add: cfg_eq_def)

lemma cfg_eq_trans: "cfg_eq sw2 sw1 \<Longrightarrow> cfg_eq sw1 sw \<Longrightarrow> cfg_eq sw2 sw"
  by (simp add: cfg_eq_def)

lemma handle_request_cfg:
  "cfg_eq (snd (handle_request K this src_port request sw)) sw"
  by (simp add: handle_request_def Let_def cfg_eq_def match_vlan_def split: outcome.splits)

lemma deliver_cfg:
  "deliver K target src_port request vlan sw = (e, sw', cs) \<Longrightarrow> cfg_eq sw' sw"
  using handle_request_cfg[of K target src_port request sw]
  by (auto simp: deliver_def cfg_eq_refl split: if_splits prod.splits)

lemma deliver_calls:
  "deliver K target src_port request vlan sw = (e, sw', cs) \<Longrightarrow>
     cs = (if target \<noteq> src_port \<and> match_vlan (objs sw target) vlan then [Switched target] else [])"
  by (auto simp: deliver_def split: if_splits prod.splits)

lemma flood_loop_calls:
  assumes "flood_loop K src_port request vlan idx sw = (None, sw', cs)"
    and "max_used sw \<le> length (sw_ports sw)"
  shows "cfg_eq sw' sw \<and>
         cs = map Switched
                (filter (\<lambda>t. t \<noteq> src_port \<and> match_vlan (objs sw t) vlan)
                   (map the (takeWhile (\<lambda>x. x \<noteq> None)
                      (drop idx (take (max_used sw) (sw_ports sw))))))"
  using assms
proof (induction K src_port request vlan idx sw arbitrary: sw' cs rule: flood_loop.induct)
  case (1 K src_port request vlan idx sw)
  note simps = flood_loop.simps[of K src_port request vlan idx sw]
  show ?case
  proof (cases "idx < max_used sw")
    case False
    then show ?thesis using "1.prems" by (simp add: simps cfg_eq_refl)
  next
    case lt: True
    then have dr: "drop idx (take (max_used sw) (sw_ports sw)) =
        sw_ports sw ! idx # drop (idx + 1) (take (max_used sw) (sw_ports sw))"
      using "1.prems"(2) by (simp add: Cons_nth_drop_Suc[symmetric])
    show ?thesis
    proof (cases "sw_ports sw ! idx")
      case None
      then show ?thesis using "1.prems" lt dr by (simp add: simps cfg_eq_refl)
    next
      case (Some target)
      obtain e1 sw1 cs1 where d: "deliver K target src_port request vlan sw = (e1, sw1, cs1)"
        by (cases "deliver K target src_port request vlan sw") auto
      have e1: "e1 = None"
        using "1.prems"(1) lt Some d by (cases e1) (simp_all add: simps)
      obtain e2 sw2 cs2 where
        f: "flood_loop K src_port request vlan (idx + 1) sw1 = (e2, sw2, cs2)"
        by (cases "flood_loop K src_port request vlan (idx + 1) sw1") auto
      have res: "e2 = None" "sw' = sw2" "cs = cs1 @ cs2"
        using "1.prems"(1) lt Some d e1 f by (simp_all add: simps)
      have c1: "cfg_eq sw1 sw" using d by (rule deliver_cfg)
      have mu: "max_used sw1 \<le> length (sw_ports sw1)" using c1 "1.prems"(2) by (simp add: cfg_eq_def)
      have ih: "cfg_eq sw2 sw1 \<and>
         cs2 = map Switched
                (filter (\<lambda>t. t \<noteq> src_port \<and> match_vlan (objs sw1 t) vlan)
                   (map the (takeWhile (\<lambda>x. x \<noteq> None)
                      (drop (idx + 1) (take (max_used sw1) (sw_ports sw1))))))"
      proof -
        have f': "flood_loop K src_port request vlan (idx + 1) sw1 = (None, sw2, cs2)"
          using f res by simp
        show ?thesis using "1.IH"[OF lt Some _ _ _ f' mu] d e1 by simp
      qed
      have cs1: "cs1 = (if target \<noteq> src_port \<and> match_vlan (objs sw target) vlan
                        then [Switched target] else [])"
        using d by (rule deliver_calls)
      have "cfg_eq sw' sw" using ih c1 res cfg_eq_trans by blast
      moreover have "cs = map Switched
                (filter (\<lambda>t. t \<noteq> src_port \<and> match_vlan (objs sw t) vlan)
                   (map the (takeWhile (\<lambda>x. x \<noteq> None)
                      (drop idx (take (max_used sw) (sw_ports sw))))))"
        unfolding dr res using ih cs1 c1 Some by (simp add: cfg_eq_def)
      ultimately show ?thesis by simp
    qed
  qed
qed


lemma flood_loop_cfg:
  "flood_loop K src_port request vlan idx sw = (e, sw', cs) \<Longrightarrow> cfg_eq sw' sw"
proof (induction K src_port request vlan idx sw arbitrary: e sw' cs rule: flood_loop.induct)
  case (1 K src_port request vlan idx sw)
  note simps = flood_loop.simps[of K src_port request vlan idx sw]
  show ?case
  proof (cases "idx < max_used sw")
    case False
    then show ?thesis using "1.prems" by (simp add: simps cfg_eq_refl)
  next
    case lt: True
    show ?thesis
    proof (cases "sw_ports sw ! idx")
      case None
      then show ?thesis using "1.prems" lt by (simp add: simps cfg_eq_refl)
    next
      case (Some target)
      obtain e1 sw1 cs1 where d: "deliver K target src_port request vlan sw = (e1, sw1, cs1)"
        by (cases "deliver K target src_port request vlan sw") auto
      have c1: "cfg_eq sw1 sw" using d by (rule deliver_cfg)
      show ?thesis
      proof (cases e1)
        case (Some s)
        then have "sw' = sw1" using "1.prems" lt \<open>sw_ports sw ! idx = Some target\<close> d
          by (simp add: simps)
        then show ?thesis using c1 by simp
      next
        case None
        obtain e2 sw2 cs2 where
          f: "flood_loop K src_port request vlan (idx + 1) sw1 = (e2, sw2, cs2)"
          by (cases "flood_loop K src_port request vlan (idx + 1) sw1") auto
        have res: "sw' = sw2"
          using "1.prems" lt \<open>sw_ports sw ! idx = Some target\<close> d None f
          by (simp add: simps)
        have "cfg_eq sw2 sw1"
          using "1.IH"[OF lt \<open>sw_ports sw ! idx = Some target\<close> _ _ _ f] d None by simp
        then show ?thesis using c1 res cfg_eq_trans by blast
      qed
    qed
  qed
qed

lemma handle_request_cfg_eq:
  "handle_request K this src_port request sw = (e, sw') \<Longrightarrow> cfg_eq sw' sw"
  using handle_request_cfg[of K this src_port request sw] by simp

lemma mirror_cfg:
  "mirror K filt src_port request sw = (e, sw', cs) \<Longrightarrow> cfg_eq sw' sw"
  by (auto simp: mirror_def cfg_eq_refl split: option.splits if_splits prod.splits
      dest: handle_request_cfg_eq)

lemma mirror_calls:
  "mirror K filt src_port request sw = (e, sw', cs) \<Longrightarrow>
     cs = (case sw_monitor sw of
             None \<Rightarrow> []
           | Some m \<Rightarrow> if \<not> filt request then [Mirrored m] else [])"
  by (auto simp: mirror_def split: option.splits if_splits prod.splits)

lemma and_then_cfg:
  assumes "and_then r f = (e, sw', cs)"
    and "\<And>e1 sw1 cs1. r = (e1, sw1, cs1) \<Longrightarrow> cfg_eq sw1 sw"
    and "\<And>s e2 sw2 cs2. f s = (e2, sw2, cs2) \<Longrightarrow> cfg_eq sw2 s"
  shows "cfg_eq sw' sw"
proof -
  obtain e1 sw1 cs1 where r: "r = (e1, sw1, cs1)" by (cases r) auto
  have c1: "cfg_eq sw1 sw" using r by (rule assms(2))
  show ?thesis
  proof (cases e1)
    case (Some s)
    then have "sw' = sw1" using assms(1) r by (simp add: and_then_def)
    then show ?thesis using c1 by simp
  next
    case None
    obtain e2 sw2 cs2 where f: "f sw1 = (e2, sw2, cs2)" by (cases "f sw1") auto
    then have "sw' = sw2" using assms(1) r None by (simp add: and_then_def)
    moreover have "cfg_eq sw2 sw1" using f by (rule assms(3))
    ultimately show ?thesis using c1 cfg_eq_trans by blast
  qed
qed

lemma forward_cfg:
  assumes "forward K filt src_port request vlan sw = (e, sw', cs)"
  shows "cfg_eq sw' sw"
proof -
  have flood: "cfg_eq s' sw"
    if "and_then (flood_loop K src_port request vlan 0 sw) (mirror K filt src_port request) = (e', s', cs')"
    for e' s' cs'
    using that by (rule and_then_cfg) (auto dest: flood_loop_cfg mirror_cfg)
  have uni: "cfg_eq s' sw"
    if "and_then (deliver K target src_port request vlan sw) (mirror K filt src_port request) = (e', s', cs')"
    for e' s' cs' target
    using that by (rule and_then_cfg) (auto dest: deliver_cfg mirror_cfg)
  show ?thesis
    using assms flood uni
    by (auto simp: forward_def Let_def cfg_eq_refl split: if_splits option.splits)
qed

text \<open>
  The MAC table of the switch keeps its representation invariant:
  \<open>handle_tx_queue\<close> changes it by \<open>learn\<close> only, \<open>check_ports\<close> by \<open>flush\<close>.
\<close>

lemma handle_tx_queue_mac_table:
  "sw_mac_table (fst (snd (handle_tx_queue K filt src_port sw))) =
     (case fst (get_tx_request K (objs sw src_port)) of
        Inr (Some request) \<Rightarrow>
          learn Mac_table_Size (src_mac request) src_port (sw_mac_table sw)
      | _ \<Rightarrow> sw_mac_table sw)"
proof (cases "get_tx_request K (objs sw src_port)")
  case (Pair r q)
  show ?thesis
  proof (cases r)
    case (Inl e)
    then show ?thesis using Pair by (simp add: handle_tx_queue_def set_tx_q_simps)
  next
    case (Inr ro)
    show ?thesis
    proof (cases ro)
      case None
      then show ?thesis using Pair Inr by (simp add: handle_tx_queue_def set_tx_q_simps)
    next
      case (Some request)
      let ?sw2 = "(set_tx_q src_port q sw)\<lparr> sw_mac_table :=
          learn Mac_table_Size (src_mac request) src_port (sw_mac_table (set_tx_q src_port q sw)) \<rparr>"
      let ?vlan = "if has_vlan request then request_vlan_id K request
                   else get_vlan (objs ?sw2 src_port)"
      obtain e sw3 cs where f: "forward K filt src_port request ?vlan ?sw2 = (e, sw3, cs)"
        by (cases "forward K filt src_port request ?vlan ?sw2") auto
      have "sw_mac_table sw3 = sw_mac_table ?sw2"
        using forward_cfg[OF f] by (simp add: cfg_eq_def)
      then show ?thesis
        using Pair Inr Some f by (simp add: handle_tx_queue_def Let_def set_tx_q_simps)
    qed
  qed
qed

lemma handle_tx_queue_mt_inv:
  assumes "mt_inv Mac_table_Size (sw_mac_table sw)"
  shows "mt_inv Mac_table_Size (sw_mac_table (fst (snd (handle_tx_queue K filt src_port sw))))"
  unfolding handle_tx_queue_mac_table using assms
  by (auto split: sum.splits option.splits intro: mt_inv_learn)

lemma check_ports_loop_mt_inv:
  "mt_inv Size (sw_mac_table sw) \<Longrightarrow>
     mt_inv Size (sw_mac_table (check_ports_loop gone idx sw))"
proof (induction gone idx sw rule: check_ports_loop.induct)
  case (1 gone idx sw)
  note simps = check_ports_loop.simps[of gone idx sw]
  show ?case
  proof (cases "idx < max_used sw")
    case False
    then show ?thesis using "1.prems" by (simp add: simps)
  next
    case lt: True
    show ?thesis
    proof (cases "sw_ports sw ! idx")
      case None
      from "1.IH"(1)[OF lt None "1.prems"] show ?thesis using lt None by (simp add: simps)
    next
      case (Some p)
      show ?thesis
      proof (cases "gone p")
        case True
        have "mt_inv Size (flush p (sw_mac_table sw))" using "1.prems" by (rule mt_inv_flush)
        then show ?thesis using "1.IH"(2)[OF lt Some True] lt Some True by (simp add: simps)
      next
        case False
        from "1.IH"(3)[OF lt Some False "1.prems"] show ?thesis
          using lt Some False by (simp add: simps)
      qed
    qed
  qed
qed

lemma check_ports_mt_inv:
  "mt_inv Size (sw_mac_table sw) \<Longrightarrow> mt_inv Size (sw_mac_table (check_ports gone sw))"
  by (auto simp: check_ports_def Let_def split: option.splits dest: check_ports_loop_mt_inv)

text \<open>
  What the flood path does when no call stops it: it calls \<open>handle_request\<close> on
  the ports in the slots before the first empty one that are not the source
  and match the VLAN, in slot order, and then on the monitor port unless the
  filter hook rejects the request.
\<close>

lemma handle_tx_queue_flood:
  assumes pulled: "fst (get_tx_request K (objs sw src_port)) = Inr (Some request)"
    and miss: "is_broadcast (dst_mac request) \<or>
               lookup (learn Mac_table_Size (src_mac request) src_port (sw_mac_table sw))
                 (dst_mac request) = None"
    and wf: "max_used sw \<le> length (sw_ports sw)"
    and ok: "fst (handle_tx_queue K filt src_port sw) = None"
  shows "snd (snd (handle_tx_queue K filt src_port sw)) =
           map Switched
             (filter (\<lambda>t. t \<noteq> src_port \<and>
                          match_vlan (objs sw t)
                            (if has_vlan request then request_vlan_id K request
                             else get_vlan (objs sw src_port)))
                (map the (takeWhile (\<lambda>x. x \<noteq> None) (take (max_used sw) (sw_ports sw))))) @
           (case sw_monitor sw of
              None \<Rightarrow> []
            | Some m \<Rightarrow> if \<not> filt request then [Mirrored m] else [])"
proof -
  obtain q where g: "get_tx_request K (objs sw src_port) = (Inr (Some request), q)"
    using pulled by (cases "get_tx_request K (objs sw src_port)") auto
  let ?sw2 = "(set_tx_q src_port q sw)\<lparr> sw_mac_table :=
      learn Mac_table_Size (src_mac request) src_port (sw_mac_table (set_tx_q src_port q sw)) \<rparr>"
  let ?vlan = "if has_vlan request then request_vlan_id K request
               else get_vlan (objs sw src_port)"
  have v: "(if has_vlan request then request_vlan_id K request
            else get_vlan (objs ?sw2 src_port)) = ?vlan"
    by (simp add: set_tx_q_simps)
  obtain e sw3 cs where f: "forward K filt src_port request ?vlan ?sw2 = (e, sw3, cs)"
    by (cases "forward K filt src_port request ?vlan ?sw2") auto
  have h0: "handle_tx_queue K filt src_port sw =
      (e, (if e = Some Aborted then sw3
           else set_tx_q src_port (request_finish request (tx_q (objs sw3 src_port))) sw3), cs)"
    using g f v by (simp add: handle_tx_queue_def Let_def)
  have e: "e = None" using ok h0 by simp
  have h: "handle_tx_queue K filt src_port sw =
      (e, set_tx_q src_port (request_finish request (tx_q (objs sw3 src_port))) sw3, cs)"
    using h0 e by simp
  have l: "is_broadcast (dst_mac request) \<or> lookup (sw_mac_table ?sw2) (dst_mac request) = None"
    using miss by (simp add: set_tx_q_simps)
  have "forward K filt src_port request ?vlan ?sw2 =
          and_then (flood_loop K src_port request ?vlan 0 ?sw2) (mirror K filt src_port request)"
    using l by (auto simp: forward_def Let_def)
  then have fl: "and_then (flood_loop K src_port request ?vlan 0 ?sw2)
              (mirror K filt src_port request) = (None, sw3, cs)"
    using f e by simp
  obtain e1 sw1 cs1 where f1: "flood_loop K src_port request ?vlan 0 ?sw2 = (e1, sw1, cs1)"
    by (cases "flood_loop K src_port request ?vlan 0 ?sw2") auto
  have e1: "e1 = None" using fl f1 by (cases e1) (simp_all add: and_then_def)
  obtain e2 sw2' cs2 where m: "mirror K filt src_port request sw1 = (e2, sw2', cs2)"
    by (cases "mirror K filt src_port request sw1") auto
  have cs: "cs = cs1 @ cs2" using fl f1 e1 m by (simp add: and_then_def)
  have wf2: "max_used ?sw2 \<le> length (sw_ports ?sw2)" using wf by (simp add: set_tx_q_simps)
  from flood_loop_calls[OF f1[unfolded e1] wf2]
  have c1: "cfg_eq sw1 ?sw2"
    and cs1: "cs1 = map Switched
                (filter (\<lambda>t. t \<noteq> src_port \<and> match_vlan (objs ?sw2 t) ?vlan)
                   (map the (takeWhile (\<lambda>x. x \<noteq> None)
                      (drop 0 (take (max_used ?sw2) (sw_ports ?sw2))))))"
    by simp_all
  have cs1': "cs1 = map Switched
                (filter (\<lambda>t. t \<noteq> src_port \<and> match_vlan (objs sw t) ?vlan)
                   (map the (takeWhile (\<lambda>x. x \<noteq> None) (take (max_used sw) (sw_ports sw)))))"
    unfolding cs1 by (simp add: set_tx_q_simps)
  have mon: "sw_monitor sw1 = sw_monitor sw" using c1 by (simp add: cfg_eq_def set_tx_q_simps)
  have cs2: "cs2 = (case sw_monitor sw of None \<Rightarrow> []
                    | Some m \<Rightarrow> if \<not> filt request then [Mirrored m] else [])"
    using mirror_calls[OF m] mon by simp
  show ?thesis unfolding h using cs cs1' cs2 by simp
qed

text \<open>
  C1 fails on the code. In \<open>ex_switch_after_check\<close> the ports 1 and 3 are
  registered and slot 1 of \<open>_ports\<close> is empty, \<open>check_ports\<close> having removed
  port 2 (it lowers \<open>_max_used\<close> only for the last slot in use). Port 1
  sends an untagged broadcast frame. Port 3 is not the source and matches the
  VLAN of the frame, but the flood loop stops at the empty slot: there is no
  call of \<open>handle_request\<close> at all and the receive queue of port 3 stays as it
  was. Before port 2 went away the same frame went to the ports 2 and 3.
\<close>

theorem flood_stops_at_empty_slot:
  "sw_ports ex_switch_after_check = [Some 1, None, Some 3, None] \<and>
   max_used ex_switch_after_check = 3 \<and>
   fst (get_tx_request ex_consts (objs ex_switch_after_check 1)) =
     Inr (Some \<lparr> req_head = 0, req_proc = [],
                    req_header = Some [0, 0, 0, 0, 0, 0, 0, 0, 0, 0, 0, 0],
                    req_pkt = [0xff, 0xff, 0xff, 0xff, 0xff, 0xff,
                               2, 0, 0, 0, 0, 1, 8, 0, 1, 2] \<rparr>) \<and>
   match_vlan (objs ex_switch_after_check 3) (get_vlan (objs ex_switch_after_check 1)) \<and>
   snd (snd (handle_tx_queue ex_consts (\<lambda>r. False) 1 ex_switch_after_check)) = [] \<and>
   rx_q (objs (fst (snd (handle_tx_queue ex_consts (\<lambda>r. False) 1 ex_switch_after_check))) 3) =
     rx_q (objs ex_switch_after_check 3) \<and>
   snd (snd (handle_tx_queue ex_consts (\<lambda>r. False) 1 ex_switch)) = [Switched 2, Switched 3]"
  by code_simp
end
